theory Spec2Isabelle
  imports Complex_Main "HOL-Library.Word" "HOL-Library.Multiset"
    "HOL-Library.Char_ord" "HOL-Library.List_Lexorder"
begin

unbundle bit_operations_syntax

section \<open>The environment of genutil.go\<close>

text \<open>
  The file helpers of genutil.go talk to the operating system through \<^verbatim>\<open>os.Stat\<close>,
  \<^verbatim>\<open>os.Remove\<close>, \<^verbatim>\<open>os.Open\<close> and \<^verbatim>\<open>os/exec\<close>. The model passes the state of
  that environment explicitly as a record. Each field answers one kind of call; no relation
  between the fields is assumed, so every theorem holds for every environment.
\<close>

datatype go_error = Err string

text \<open>The part of \<^verbatim>\<open>os.FileInfo\<close> the code reads: the mode bits (a \<^verbatim>\<open>uint32\<close>).\<close>

record file_info =
  Mode :: "32 word"

text \<open>\<^verbatim>\<open>*exec.Cmd\<close> as built by \<^verbatim>\<open>exec.Command(name, arg...)\<close>.\<close>

record cmd =
  Path :: string
  Args :: "string list"

definition exec_Command :: "string \<Rightarrow> string list \<Rightarrow> cmd" where
  "exec_Command name arg = \<lparr>Path = name, Args = name # arg\<rparr>"

text \<open>What \<^verbatim>\<open>cmd.Start()\<close> does: it fails, or the process runs and writes its standard output.\<close>

datatype process = StartFails go_error | Started "char list"

record world =
  os_Stat :: "string \<Rightarrow> file_info option"
    \<comment> \<open>\<^verbatim>\<open>os.Stat\<close>: \<open>None\<close> stands for any error\<close>
  os_Remove :: "string \<Rightarrow> go_error option"
    \<comment> \<open>\<^verbatim>\<open>os.Remove\<close>: the error it returns, \<open>None\<close> when the removal succeeds\<close>
  os_Open :: "string \<Rightarrow> go_error + char list"
    \<comment> \<open>\<^verbatim>\<open>os.Open\<close>: an error, or the bytes the opened file delivers\<close>
  cmd_StdoutPipe :: "cmd \<Rightarrow> go_error option"
  cmd_Start :: "cmd \<Rightarrow> process"
  gzip_NewReader :: "char list \<Rightarrow> go_error + char list"
    \<comment> \<open>an error (bad header), or the bytes the decoder delivers before it stops\<close>
  bzip2_NewReader :: "char list \<Rightarrow> char list"

text \<open>A panic of the Go runtime or of the code itself ends the call; it is the \<open>Inl\<close> of a sum.\<close>

datatype panic =
    Panic string
  | PanicErr go_error
  | LogPanicf string go_error string int
  | NilPointerDereference
  | IndexOutOfRange

section \<open>Path predicates\<close>

text \<open>\<^verbatim>\<open>strings.HasSuffix(s, suffix)\<close>: \<^verbatim>\<open>len(s) >= len(suffix) && s[len(s)-len(suffix):] == suffix\<close>.\<close>

definition HasSuffix :: "string \<Rightarrow> string \<Rightarrow> bool" where
  "HasSuffix s suffix \<longleftrightarrow>
     length s \<ge> length suffix \<and> drop (length s - length suffix) s = suffix"

definition PathOK :: "world \<Rightarrow> string \<Rightarrow> bool" where
  "PathOK w path = (case os_Stat w path of Some info \<Rightarrow> True | None \<Rightarrow> False)"

text \<open>The mask \<^verbatim>\<open>0111\<close> is octal: the three execute bits, \<open>0x49\<close>.\<close>

definition FileExecutable :: "world \<Rightarrow> string \<Rightarrow> bool" where
  "FileExecutable w path =
     (case os_Stat w path of
        None \<Rightarrow> False
      | Some info \<Rightarrow> (Mode info AND 0x49) > 0)"

section \<open>ReadableFilename\<close>

text \<open>
  The second switch of \<^verbatim>\<open>ReadableFilename\<close> and of \<^verbatim>\<open>WritableFilename\<close>: one
  compression suffix is cut off (\<^verbatim>\<open>_fname[:len(_fname)-3]\<close> or \<^verbatim>\<open>-4\<close>).
\<close>

definition tmpf_of :: "string \<Rightarrow> string" where
  "tmpf_of fname =
     (if HasSuffix fname ''.xz'' then take (length fname - 3) fname
      else if HasSuffix fname ''.gz'' then take (length fname - 3) fname
      else if HasSuffix fname ''.bz2'' then take (length fname - 4) fname
      else if HasSuffix fname ''.zip'' then take (length fname - 4) fname
      else fname)"

text \<open>The result is the triple \<open>(ofname, ofcmd, ofcode)\<close>; \<open>ofcmd\<close> is a pointer, \<open>None\<close> is nil.\<close>

definition ReadableFilename :: "world \<Rightarrow> string \<Rightarrow> panic + (string \<times> cmd option \<times> int)" where
  "ReadableFilename w fname =
     (let fok = PathOK w fname in
      if HasSuffix fname ''.xz'' \<and> fok then
        Inr (fname, Some (exec_Command ''/usr/bin/xzcat'' [fname]), 1)
      else if HasSuffix fname ''.gz'' \<and> fok then
        Inr (fname, Some (exec_Command ''/bin/zcat'' [fname]), 2)
      else if HasSuffix fname ''.bz2'' \<and> fok then
        Inr (fname, Some (exec_Command ''/usr/bin/bzcat'' [fname]), 3)
      else if HasSuffix fname ''.zip'' \<and> fok then
        Inr (fname, Some (exec_Command ''/usr/bin/unzip -p'' [fname]), 4)
      else if HasSuffix fname ''.bash'' then
        (if FileExecutable w fname then
           Inr (''/dev/null'', Some (exec_Command fname []), 5)
         else Inl (Panic (''bash file exists without execute permissions:'' @ fname)))
      else if fok then
        Inr (fname, Some (exec_Command ''/bin/cat'' [fname]), 6)
      else
        (let tmpf = tmpf_of fname in
         if PathOK w (tmpf @ ''.xz'') then
           Inr (tmpf @ ''.xz'', Some (exec_Command ''/usr/bin/xzcat'' [tmpf @ ''.xz'']), 7)
         else if PathOK w (tmpf @ ''.gz'') then
           Inr (tmpf @ ''.gz'', Some (exec_Command ''/bin/zcat'' [tmpf @ ''.gz'']), 8)
         else if PathOK w (tmpf @ ''.bz2'') then
           Inr (tmpf @ ''.bz2'', Some (exec_Command ''/usr/bin/bzcat'' [tmpf @ ''.bz2'']), 9)
         else if PathOK w (tmpf @ ''.zip'') then
           Inr (tmpf @ ''.zip'', Some (exec_Command ''/usr/bin/unzip -p'' [tmpf @ ''.zip'']), 10)
         else if PathOK w tmpf then
           Inr (tmpf, Some (exec_Command ''/bin/cat'' [tmpf]), 11)
         else Inr (''/dev/null'', None, 0)))"

section \<open>WritableFilename\<close>

text \<open>
  \<^verbatim>\<open>os.Remove\<close> changes the environment: after a successful removal \<^verbatim>\<open>os.Stat\<close> no longer
  finds the path. Every other answer of the environment stays as it was.
\<close>

definition remove_path :: "world \<Rightarrow> string \<Rightarrow> world" where
  "remove_path w path = w\<lparr>os_Stat := (os_Stat w)(path := None)\<rparr>"

definition PathRemoveOrPanic :: "world \<Rightarrow> string \<Rightarrow> panic + (world \<times> bool)" where
  "PathRemoveOrPanic w fname =
     (case os_Remove w fname of
        Some err \<Rightarrow> Inl (PanicErr err)
      | None \<Rightarrow> Inr (remove_path w fname, True))"

text \<open>
  One arm of the two switches of \<^verbatim>\<open>WritableFilename\<close>:
  \<^verbatim>\<open>ofname, _, ofcode = p, PathRemoveOrPanic(p), code; return\<close>.
\<close>

definition remove_and_return :: "world \<Rightarrow> string \<Rightarrow> int \<Rightarrow> panic + (world \<times> string \<times> int)" where
  "remove_and_return w p code =
     (case PathRemoveOrPanic w p of
        Inl e \<Rightarrow> Inl e
      | Inr (w', _) \<Rightarrow> Inr (w', p, code))"

definition WritableFilename :: "world \<Rightarrow> string \<Rightarrow> panic + (world \<times> string \<times> int)" where
  "WritableFilename w fname =
     (let fok = PathOK w fname in
      if HasSuffix fname ''.xz'' \<and> fok then remove_and_return w fname 1
      else if HasSuffix fname ''.gz'' \<and> fok then remove_and_return w fname 2
      else if HasSuffix fname ''.bz2'' \<and> fok then remove_and_return w fname 3
      else if HasSuffix fname ''.zip'' \<and> fok then remove_and_return w fname 4
      else if fok then remove_and_return w fname 6
      else
        (let tmpf = tmpf_of fname in
         if PathOK w (tmpf @ ''.xz'') then remove_and_return w (tmpf @ ''.xz'') 7
         else if PathOK w (tmpf @ ''.gz'') then remove_and_return w (tmpf @ ''.gz'') 8
         else if PathOK w (tmpf @ ''.bz2'') then remove_and_return w (tmpf @ ''.bz2'') 9
         else if PathOK w (tmpf @ ''.zip'') then remove_and_return w (tmpf @ ''.zip'') 10
         else if PathOK w tmpf then remove_and_return w tmpf 11
         else Inr (w, ''/dev/null'', 0)))"

section \<open>Readers\<close>

text \<open>
  An \<^verbatim>\<open>io.Reader\<close> is modelled by what reading it gives: \<open>Stream s\<close> delivers the bytes
  \<open>s\<close> and then reports an error (\<^verbatim>\<open>io.EOF\<close> or any other; the code treats them alike).
  \<open>NilDecoder\<close> is the nil \<^verbatim>\<open>*gzip.Reader\<close> that \<^verbatim>\<open>gzip.NewReader\<close> returns together
  with an error: reading through it dereferences nil.
\<close>

datatype source = Stream "char list" | NilDecoder

text \<open>
  Every \<^verbatim>\<open>bufio.Reader\<close> of the program is made by
  \<^verbatim>\<open>bufio.NewReaderSize(rd, 20*4096)\<close>, so its buffer holds \<open>buf_size\<close> bytes.
\<close>

datatype bufio_Reader = Reader source

definition buf_size :: nat where
  "buf_size = 20 * 4096"

definition bufio_NewReaderSize :: "source \<Rightarrow> bufio_Reader" where
  "bufio_NewReaderSize rd = Reader rd"

definition LF :: char where "LF = CHR 0x0A"
definition CR :: char where "CR = CHR 0x0D"

definition io_EOF :: go_error where
  "io_EOF = Err ''EOF''"

text \<open>
  \<^verbatim>\<open>(*bufio.Reader).ReadLine\<close> of the Go library, on a stream that still holds the bytes
  \<open>s\<close>, \<open>s\<close> not empty. It returns \<open>(line, isPrefix)\<close> and the bytes that remain:
  \<^item> a line feed among the first \<open>buf_size\<close> bytes ends the line; the line feed, and a
    carriage return before it, are dropped from the line;
  \<^item> otherwise, when \<open>buf_size\<close> bytes are there, the buffer is full: they are returned
    with \<open>isPrefix\<close> set (a carriage return in the last place is put back);
  \<^item> otherwise the stream ends without a line end, and what is left is returned as a line.
\<close>

definition read_chunk :: "char list \<Rightarrow> (char list \<times> bool) \<times> char list" where
  "read_chunk s =
     (let pre = takeWhile (\<lambda>c. c \<noteq> LF) s in
      if length pre < length s \<and> length pre < buf_size then
        ((if pre \<noteq> [] \<and> last pre = CR then butlast pre else pre, False),
         drop (Suc (length pre)) s)
      else if buf_size \<le> length s then
        (if s ! (buf_size - 1) = CR then ((take (buf_size - 1) s, True), drop (buf_size - 1) s)
         else ((take buf_size s, True), drop buf_size s))
      else ((s, False), []))"

text \<open>
  The receiver of \<^verbatim>\<open>ReadLine\<close> is a pointer; \<open>None\<close> is the nil pointer. The call returns
  \<open>(line, isPrefix, err)\<close> and leaves the reader in a new state.
\<close>

fun ReadLine :: "bufio_Reader option \<Rightarrow>
    panic + ((char list \<times> bool \<times> go_error option) \<times> bufio_Reader)" where
  "ReadLine None = Inl NilPointerDereference"
| "ReadLine (Some (Reader NilDecoder)) = Inl NilPointerDereference"
| "ReadLine (Some (Reader (Stream s))) =
     (if s = [] then Inr (([], False, Some io_EOF), Reader (Stream []))
      else (case read_chunk s of
              ((line, isPrefix), rest) \<Rightarrow> Inr ((line, isPrefix, None), Reader (Stream rest))))"

section \<open>OpenAny, OpenAnyIO, OpenAnyErr\<close>

text \<open>
  What the pipe of \<^verbatim>\<open>cmd.StdoutPipe()\<close> delivers after \<^verbatim>\<open>cmd.Start()\<close>: the output of
  the process, or nothing when the process did not start.
\<close>

definition pipe_source :: "process \<Rightarrow> source" where
  "pipe_source p = (case p of Started out \<Rightarrow> Stream out | StartFails e \<Rightarrow> Stream [])"

text \<open>
  In \<open>LogPanicf\<close> the fields are the name in the message, \<^verbatim>\<open>err\<close>, \<^verbatim>\<open>_fname\<close> and
  \<^verbatim>\<open>ofcode\<close>.
\<close>

definition OpenAny :: "world \<Rightarrow> string \<Rightarrow> panic + bufio_Reader option" where
  "OpenAny w fname =
     (case ReadableFilename w fname of
        Inl p \<Rightarrow> Inl p
      | Inr (ofname, ofcmd, ofcode) \<Rightarrow>
          if ofcode = 1 \<or> ofcode = 7 \<or> ofcode = 4 \<or> ofcode = 10 \<or> ofcode = 5 then
            (case ofcmd of
               None \<Rightarrow> Inl NilPointerDereference
             | Some c \<Rightarrow>
                 (let err = cmd_StdoutPipe w c;
                      started = cmd_Start w c
                  in case err of
                       Some e \<Rightarrow> Inl (LogPanicf ''genutil.OpenAny'' e fname ofcode)
                     | None \<Rightarrow> Inr (Some (bufio_NewReaderSize (pipe_source started)))))
          else if ofcode = 2 \<or> ofcode = 8 then
            (case os_Open w ofname of
               Inl e \<Rightarrow> Inl (LogPanicf ''genutil.OpenAny'' e fname ofcode)
             | Inr fi \<Rightarrow>
                 (case gzip_NewReader w fi of
                    Inl e \<Rightarrow> Inr (Some (bufio_NewReaderSize NilDecoder))
                  | Inr gzr \<Rightarrow> Inr (Some (bufio_NewReaderSize (Stream gzr)))))
          else if ofcode = 3 \<or> ofcode = 9 then
            (case os_Open w ofname of
               Inl e \<Rightarrow> Inl (LogPanicf ''genutil.OpenAny'' e fname ofcode)
             | Inr fi \<Rightarrow> Inr (Some (bufio_NewReaderSize (Stream (bzip2_NewReader w fi)))))
          else if ofcode = 6 \<or> ofcode = 11 then
            (case os_Open w ofname of
               Inl e \<Rightarrow> Inl (LogPanicf ''genutil.OpenAny'' e fname ofcode)
             | Inr fi \<Rightarrow> Inr (Some (bufio_NewReaderSize (Stream fi))))
          else Inr None)"

definition OpenAnyIO :: "world \<Rightarrow> string \<Rightarrow> panic + source option" where
  "OpenAnyIO w fname =
     (case ReadableFilename w fname of
        Inl p \<Rightarrow> Inl p
      | Inr (ofname, ofcmd, ofcode) \<Rightarrow>
          if ofcode = 1 \<or> ofcode = 7 \<or> ofcode = 4 \<or> ofcode = 10 \<or> ofcode = 5 then
            (case ofcmd of
               None \<Rightarrow> Inl NilPointerDereference
             | Some c \<Rightarrow>
                 (let err = cmd_StdoutPipe w c;
                      started = cmd_Start w c
                  in case err of
                       Some e \<Rightarrow> Inl (LogPanicf ''genutil.OpenAny'' e fname ofcode)
                     | None \<Rightarrow> Inr (Some (pipe_source started))))
          else if ofcode = 2 \<or> ofcode = 8 then
            (case os_Open w ofname of
               Inl e \<Rightarrow> Inl (LogPanicf ''genutil.OpenAnyIO'' e fname ofcode)
             | Inr fi \<Rightarrow>
                 (case gzip_NewReader w fi of
                    Inl e \<Rightarrow> Inr (Some NilDecoder)
                  | Inr gzr \<Rightarrow> Inr (Some (Stream gzr))))
          else if ofcode = 3 \<or> ofcode = 9 then
            (case os_Open w ofname of
               Inl e \<Rightarrow> Inl (LogPanicf ''genutil.OpenAnyIO'' e fname ofcode)
             | Inr fi \<Rightarrow> Inr (Some (Stream (bzip2_NewReader w fi))))
          else if ofcode = 6 \<or> ofcode = 11 then
            (case os_Open w ofname of
               Inl e \<Rightarrow> Inl (LogPanicf ''genutil.OpenAnyIO'' e fname ofcode)
             | Inr fi \<Rightarrow> Inr (Some (Stream fi)))
          else Inr None)"

text \<open>\<^verbatim>\<open>OpenAnyErr\<close> returns the pair \<open>(reader, error)\<close>; \<open>None\<close> is nil in both places.\<close>

definition OpenAnyErr :: "world \<Rightarrow> string \<Rightarrow> panic + (bufio_Reader option \<times> go_error option)" where
  "OpenAnyErr w fname =
     (case ReadableFilename w fname of
        Inl p \<Rightarrow> Inl p
      | Inr (ofname, ofcmd, ofcode) \<Rightarrow>
          (case ofcmd of
             None \<Rightarrow> Inr (None, Some (Err ''os.exec.Command returned nil pointer''))
           | Some c \<Rightarrow>
               if ofcode = 1 \<or> ofcode = 7 \<or> ofcode = 4 \<or> ofcode = 10 \<or> ofcode = 5 then
                 (case cmd_StdoutPipe w c of
                    Some e \<Rightarrow> Inr (None, Some e)
                  | None \<Rightarrow>
                      (case cmd_Start w c of
                         StartFails e \<Rightarrow> Inr (None, Some e)
                       | Started out \<Rightarrow> Inr (Some (bufio_NewReaderSize (Stream out)), None)))
               else if ofcode = 2 \<or> ofcode = 8 then
                 (case os_Open w ofname of
                    Inl e \<Rightarrow> Inr (None, Some e)
                  | Inr fi \<Rightarrow>
                      (case gzip_NewReader w fi of
                         Inl e \<Rightarrow> Inr (None, Some e)
                       | Inr gzr \<Rightarrow> Inr (Some (bufio_NewReaderSize (Stream gzr)), None)))
               else if ofcode = 3 \<or> ofcode = 9 then
                 (case os_Open w ofname of
                    Inl e \<Rightarrow> Inr (None, Some e)
                  | Inr fi \<Rightarrow>
                      Inr (Some (bufio_NewReaderSize (Stream (bzip2_NewReader w fi))), None))
               else if ofcode = 6 \<or> ofcode = 11 then
                 (case os_Open w ofname of
                    Inl e \<Rightarrow> Inr (None, Some e)
                  | Inr fi \<Rightarrow> Inr (Some (bufio_NewReaderSize (Stream fi)), None))
               else Inr (None, Some (Err ''OpenAnyErr : unknown ofcode''))))"

section \<open>GetNumLines\<close>

text \<open>The loop of \<^verbatim>\<open>GetNumLines\<close>; \<^verbatim>\<open>num\<close> is an \<^verbatim>\<open>int64\<close>.\<close>

function GetNumLines_loop :: "bufio_Reader option \<Rightarrow> 64 word \<Rightarrow> panic + 64 word" where
  "GetNumLines_loop r num =
     (case ReadLine r of
        Inl p \<Rightarrow> Inl p
      | Inr ((line, isPrefix, err), r') \<Rightarrow>
          (case err of
             Some e \<Rightarrow> Inr num
           | None \<Rightarrow> GetNumLines_loop (Some r') (num + 1)))"
  by pat_completeness auto

lemma read_chunk_shorter: "s \<noteq> [] \<Longrightarrow> length (snd (read_chunk s)) < length s"
  by (auto simp: read_chunk_def Let_def buf_size_def)

termination GetNumLines_loop
proof (relation "measure (\<lambda>(r, num). case r of Some (Reader (Stream s)) \<Rightarrow> length s | _ \<Rightarrow> 0)")
  show "wf (measure (\<lambda>(r, num). case r of Some (Reader (Stream s)) \<Rightarrow> length s | _ \<Rightarrow> 0))"
    by simp
next
  fix r :: "bufio_Reader option" and num :: "64 word" and x2 x1 r' line y isPrefix err
  assume rl: "ReadLine r = Inr x2" and x2: "(x1, r') = x2" and x1: "(line, y) = x1"
    and y: "(isPrefix, err) = y" and err: "err = None"
  from rl x2 x1 y err have "ReadLine r = Inr ((line, isPrefix, None), r')"
    by simp
  then obtain s where r: "r = Some (Reader (Stream s))" and s: "s \<noteq> []"
    and r': "r' = Reader (Stream (snd (read_chunk s)))"
    by (cases r rule: ReadLine.cases) (auto split: if_splits prod.splits)
  from read_chunk_shorter [OF s] r r'
  show "((Some r', num + 1), (r, num))
      \<in> measure (\<lambda>(r, num). case r of Some (Reader (Stream s)) \<Rightarrow> length s | _ \<Rightarrow> 0)"
    by simp
qed

definition GetNumLines :: "world \<Rightarrow> string \<Rightarrow> panic + 64 word" where
  "GetNumLines w fname =
     (case OpenAny w fname of
        Inl p \<Rightarrow> Inl p
      | Inr r \<Rightarrow> GetNumLines_loop r 0)"

section \<open>Sorted keys of a map\<close>

text \<open>
  A Go map is given by the sequence in which \<^verbatim>\<open>range\<close> visits its entries: a list of
  pairs with distinct keys, in any order. The functions take a pointer to the map; \<open>None\<close>
  is the nil pointer, whose dereference panics.

  \<^verbatim>\<open>sort.Strings\<close>, \<^verbatim>\<open>sort.Ints\<close> and \<^verbatim>\<open>sort.Sort\<close> belong to the Go library. They
  are parameters of the model; what the library promises of them is stated as
  \<open>sorts_increasing\<close> and \<open>sort_Sort_contract\<close> below. Go compares strings byte by byte,
  which is the lexicographic order of \<open>char list\<close>. The keys of type \<^verbatim>\<open>int\<close> are only
  compared, never computed with, and are modelled as \<open>int\<close>.
\<close>

text \<open>The loop \<^verbatim>\<open>for kk := range *_mp { keys[ii] = kk; ii++ }\<close>.\<close>

fun range_keys :: "'k list \<Rightarrow> nat \<Rightarrow> ('k \<times> 'v) list \<Rightarrow> panic + 'k list" where
  "range_keys keys ii [] = Inr keys"
| "range_keys keys ii ((kk, vv) # rest) =
     (if ii < length keys then range_keys (keys[ii := kk]) (Suc ii) rest
      else Inl IndexOutOfRange)"

definition SortedKeys_generic ::
    "('k list \<Rightarrow> 'k list) \<Rightarrow> 'k \<Rightarrow> ('k \<times> 'v) list option \<Rightarrow> panic + 'k list" where
  "SortedKeys_generic sort_keys zero mp =
     (case mp of
        None \<Rightarrow> Inl NilPointerDereference
      | Some m \<Rightarrow>
          (case range_keys (replicate (length m) zero) 0 m of
             Inl p \<Rightarrow> Inl p
           | Inr keys \<Rightarrow> Inr (sort_keys keys)))"

section \<open>float64\<close>

text \<open>
  The values of the maps sorted by value are \<^verbatim>\<open>float64\<close>. The code only compares them
  (\<^verbatim>\<open><\<close>, \<^verbatim>\<open>>\<close>) and takes \<^verbatim>\<open>math.Abs\<close>; both are exact, so a finite value is
  modelled by the real number it stands for (the two zeros compare equal and are the one
  \<open>Finite 0\<close>), beside the two infinities and NaN.
\<close>

datatype float64 = NaN | NegInf | Finite real | PosInf

fun f64_less :: "float64 \<Rightarrow> float64 \<Rightarrow> bool" where
  "f64_less NaN y = False"
| "f64_less x NaN = False"
| "f64_less x NegInf = False"
| "f64_less NegInf y = True"
| "f64_less PosInf y = False"
| "f64_less (Finite a) (Finite b) = (a < b)"
| "f64_less (Finite a) PosInf = True"

text \<open>\<^verbatim>\<open>x <= y\<close> on \<^verbatim>\<open>float64\<close>: false as soon as one side is NaN.\<close>

fun f64_le :: "float64 \<Rightarrow> float64 \<Rightarrow> bool" where
  "f64_le NaN y = False"
| "f64_le x NaN = False"
| "f64_le NegInf y = True"
| "f64_le x PosInf = True"
| "f64_le x NegInf = False"
| "f64_le PosInf y = False"
| "f64_le (Finite a) (Finite b) = (a \<le> b)"

fun math_Abs :: "float64 \<Rightarrow> float64" where
  "math_Abs NaN = NaN"
| "math_Abs NegInf = PosInf"
| "math_Abs PosInf = PosInf"
| "math_Abs (Finite a) = Finite \<bar>a\<bar>"

section \<open>Sorted keys by key\<close>

text \<open>
  The six functions of genutil_sortbykey.go have the same body and differ in the types of
  the map only; \<^verbatim>\<open>make([]string, n)\<close> holds empty strings, \<^verbatim>\<open>make([]int, n)\<close> zeros.
\<close>

definition SortedKeys_String2Int ::
    "(string list \<Rightarrow> string list) \<Rightarrow> (string \<times> int) list option \<Rightarrow> panic + string list" where
  "SortedKeys_String2Int sort_Strings mp = SortedKeys_generic sort_Strings [] mp"

definition SortedKeys_String2Int64 ::
    "(string list \<Rightarrow> string list) \<Rightarrow> (string \<times> 64 word) list option \<Rightarrow> panic + string list" where
  "SortedKeys_String2Int64 sort_Strings mp = SortedKeys_generic sort_Strings [] mp"

definition SortedKeys_String2Float64 ::
    "(string list \<Rightarrow> string list) \<Rightarrow> (string \<times> float64) list option \<Rightarrow> panic + string list" where
  "SortedKeys_String2Float64 sort_Strings mp = SortedKeys_generic sort_Strings [] mp"

definition SortedKeys_String2Bool ::
    "(string list \<Rightarrow> string list) \<Rightarrow> (string \<times> bool) list option \<Rightarrow> panic + string list" where
  "SortedKeys_String2Bool sort_Strings mp = SortedKeys_generic sort_Strings [] mp"

definition SortedKeys_String2String ::
    "(string list \<Rightarrow> string list) \<Rightarrow> (string \<times> string) list option \<Rightarrow> panic + string list" where
  "SortedKeys_String2String sort_Strings mp = SortedKeys_generic sort_Strings [] mp"

definition SortedKeys_Int2Int ::
    "(int list \<Rightarrow> int list) \<Rightarrow> (int \<times> int) list option \<Rightarrow> panic + int list" where
  "SortedKeys_Int2Int sort_Ints mp = SortedKeys_generic sort_Ints 0 mp"

section \<open>Sorted keys by value\<close>

text \<open>
  The four element types of genutil_sortbyval.go are the same struct under four names; its
  fields \<^verbatim>\<open>kk_\<close> and \<^verbatim>\<open>val_\<close> are \<open>elem_kk\<close> and \<open>elem_val\<close> here.
\<close>

record myelemFloat64 =
  elem_kk :: string
  elem_val :: float64

type_synonym myelemFloat64SortAscending = myelemFloat64
type_synonym myelemFloat64SortAbsAscending = myelemFloat64
type_synonym myelemFloat64SortDescending = myelemFloat64
type_synonym myelemFloat64SortAbsDescending = myelemFloat64

text \<open>The \<^verbatim>\<open>Less\<close> methods, as relations between the elements at the two indices.\<close>

definition Less_Ascending :: "myelemFloat64 \<Rightarrow> myelemFloat64 \<Rightarrow> bool" where
  "Less_Ascending a b = f64_less (elem_val a) (elem_val b)"

definition Less_AbsAscending :: "myelemFloat64 \<Rightarrow> myelemFloat64 \<Rightarrow> bool" where
  "Less_AbsAscending a b = f64_less (math_Abs (elem_val a)) (math_Abs (elem_val b))"

definition Less_Descending :: "myelemFloat64 \<Rightarrow> myelemFloat64 \<Rightarrow> bool" where
  "Less_Descending a b = f64_less (elem_val b) (elem_val a)"

definition Less_AbsDescending :: "myelemFloat64 \<Rightarrow> myelemFloat64 \<Rightarrow> bool" where
  "Less_AbsDescending a b = f64_less (math_Abs (elem_val b)) (math_Abs (elem_val a))"

text \<open>The loop \<^verbatim>\<open>for kk, vv := range *_mp { mp[ii].kk_, mp[ii].val_ = kk, vv; ii++ }\<close>.\<close>

fun range_elems :: "myelemFloat64 list \<Rightarrow> nat \<Rightarrow> (string \<times> float64) list \<Rightarrow>
    panic + myelemFloat64 list" where
  "range_elems mp ii [] = Inr mp"
| "range_elems mp ii ((kk, vv) # rest) =
     (if ii < length mp then
        range_elems (mp[ii := (mp ! ii)\<lparr>elem_kk := kk, elem_val := vv\<rparr>]) (Suc ii) rest
      else Inl IndexOutOfRange)"

text \<open>The loop \<^verbatim>\<open>for idx := range mp { kkarr[ii] = mp[idx].kk_; ii++ }\<close>.\<close>

fun range_kkarr :: "string list \<Rightarrow> nat \<Rightarrow> myelemFloat64 list \<Rightarrow> panic + string list" where
  "range_kkarr kkarr ii [] = Inr kkarr"
| "range_kkarr kkarr ii (e # rest) =
     (if ii < length kkarr then range_kkarr (kkarr[ii := elem_kk e]) (Suc ii) rest
      else Inl IndexOutOfRange)"

type_synonym sort_Sort =
  "(myelemFloat64 \<Rightarrow> myelemFloat64 \<Rightarrow> bool) \<Rightarrow> myelemFloat64 list \<Rightarrow> myelemFloat64 list"

definition SortedKeysByVal_generic ::
    "sort_Sort \<Rightarrow> (myelemFloat64 \<Rightarrow> myelemFloat64 \<Rightarrow> bool) \<Rightarrow>
     (string \<times> float64) list option \<Rightarrow> panic + string list" where
  "SortedKeysByVal_generic sort_Sort Less mp0 =
     (case mp0 of
        None \<Rightarrow> Inl NilPointerDereference
      | Some m \<Rightarrow>
          (let mlen = length m in
           case range_elems (replicate mlen \<lparr>elem_kk = [], elem_val = Finite 0\<rparr>) 0 m of
             Inl p \<Rightarrow> Inl p
           | Inr mp \<Rightarrow> range_kkarr (replicate mlen []) 0 (sort_Sort Less mp)))"

definition SortedKeysByVal_String2Float64_Ascending ::
    "sort_Sort \<Rightarrow> (string \<times> float64) list option \<Rightarrow> panic + string list" where
  "SortedKeysByVal_String2Float64_Ascending sort_Sort mp =
     SortedKeysByVal_generic sort_Sort Less_Ascending mp"

definition SortedKeysByVal_String2Float64_AbsAscending ::
    "sort_Sort \<Rightarrow> (string \<times> float64) list option \<Rightarrow> panic + string list" where
  "SortedKeysByVal_String2Float64_AbsAscending sort_Sort mp =
     SortedKeysByVal_generic sort_Sort Less_AbsAscending mp"

definition SortedKeysByVal_String2Float64_Descending ::
    "sort_Sort \<Rightarrow> (string \<times> float64) list option \<Rightarrow> panic + string list" where
  "SortedKeysByVal_String2Float64_Descending sort_Sort mp =
     SortedKeysByVal_generic sort_Sort Less_Descending mp"

definition SortedKeysByVal_String2Float64_AbsDescending ::
    "sort_Sort \<Rightarrow> (string \<times> float64) list option \<Rightarrow> panic + string list" where
  "SortedKeysByVal_String2Float64_AbsDescending sort_Sort mp =
     SortedKeysByVal_generic sort_Sort Less_AbsDescending mp"

section \<open>What the Go library promises of its sorts\<close>

text \<open>
  Each sort of the library rearranges the slice it is given: it moves elements (through
  \<^verbatim>\<open>Swap\<close>) and neither adds nor drops one.
\<close>

definition keeps_elements :: "('a list \<Rightarrow> 'a list) \<Rightarrow> bool" where
  "keeps_elements f \<longleftrightarrow> (\<forall>xs. mset (f xs) = mset xs)"

text \<open>\<^verbatim>\<open>sort.Strings\<close> and \<^verbatim>\<open>sort.Ints\<close> sort a slice in increasing order.\<close>

definition sorts_increasing :: "('a::linorder list \<Rightarrow> 'a list) \<Rightarrow> bool" where
  "sorts_increasing f \<longleftrightarrow> keeps_elements f \<and> (\<forall>xs. sorted (f xs))"

text \<open>
  The result of \<^verbatim>\<open>sort.Sort\<close> is sorted by \<^verbatim>\<open>Less\<close> (no element is less than an earlier
  one) when \<^verbatim>\<open>Less\<close> is the transitive ordering that \<^verbatim>\<open>sort.Interface\<close> asks for:
  irreflexive, transitive, and with a transitive "neither is less". The sort need not be
  stable.
\<close>

definition transitive_ordering_on :: "'a set \<Rightarrow> ('a \<Rightarrow> 'a \<Rightarrow> bool) \<Rightarrow> bool" where
  "transitive_ordering_on A lt \<longleftrightarrow>
     (\<forall>x\<in>A. \<not> lt x x) \<and>
     (\<forall>x\<in>A. \<forall>y\<in>A. \<forall>z\<in>A. lt x y \<and> lt y z \<longrightarrow> lt x z) \<and>
     (\<forall>x\<in>A. \<forall>y\<in>A. \<forall>z\<in>A. \<not> lt x y \<and> \<not> lt y z \<longrightarrow> \<not> lt x z)"

definition sort_permutes :: "(('a \<Rightarrow> 'a \<Rightarrow> bool) \<Rightarrow> 'a list \<Rightarrow> 'a list) \<Rightarrow> bool" where
  "sort_permutes srt \<longleftrightarrow> (\<forall>lt. keeps_elements (srt lt))"

definition sort_Sort_contract :: "(('a \<Rightarrow> 'a \<Rightarrow> bool) \<Rightarrow> 'a list \<Rightarrow> 'a list) \<Rightarrow> bool" where
  "sort_Sort_contract srt \<longleftrightarrow>
     sort_permutes srt \<and>
     (\<forall>lt xs. transitive_ordering_on (set xs) lt \<longrightarrow>
        sorted_wrt (\<lambda>a b. \<not> lt b a) (srt lt xs))"

text \<open>
  One sort that keeps these promises is the insertion sort that \<^verbatim>\<open>sort.Sort\<close> itself runs
  on a short slice: each element in turn moves left while it is less than its left
  neighbour. \<open>sift\<close> works on the sorted part in reverse, nearest neighbour first.
\<close>

fun sift :: "('a \<Rightarrow> 'a \<Rightarrow> bool) \<Rightarrow> 'a \<Rightarrow> 'a list \<Rightarrow> 'a list" where
  "sift lt x [] = [x]"
| "sift lt x (y # ys) = (if lt x y then y # sift lt x ys else x # y # ys)"

definition insertionSort :: "('a \<Rightarrow> 'a \<Rightarrow> bool) \<Rightarrow> 'a list \<Rightarrow> 'a list" where
  "insertionSort lt xs = rev (foldl (\<lambda>acc x. sift lt x acc) [] xs)"

section \<open>The properties of the sorted keys\<close>

text \<open>
  The result is a permutation of the keys of the map: the same keys, each as often, so
  also the same number and the same set.
\<close>

definition permutation_of_keys :: "('k \<times> 'v) list \<Rightarrow> panic + 'k list \<Rightarrow> bool" where
  "permutation_of_keys m r =
     (case r of
        Inl p \<Rightarrow> False
      | Inr ks \<Rightarrow> mset ks = mset (map fst m) \<and> length ks = length m \<and> set ks = fst ` set m)"

text \<open>The value of a key, \<^verbatim>\<open>(*_mp)[k]\<close>: the zero value when the key is missing.\<close>

definition value_of :: "(string \<times> float64) list \<Rightarrow> string \<Rightarrow> float64" where
  "value_of m k = (case map_of m k of Some v \<Rightarrow> v | None \<Rightarrow> Finite 0)"

text \<open>The values of any two adjacent keys of the output are related by \<open>rel\<close>.\<close>

definition adjacent_values ::
    "(float64 \<Rightarrow> float64 \<Rightarrow> bool) \<Rightarrow> (string \<times> float64) list \<Rightarrow> string list \<Rightarrow> bool" where
  "adjacent_values rel m ks \<longleftrightarrow>
     (\<forall>i. Suc i < length ks \<longrightarrow> rel (value_of m (ks ! i)) (value_of m (ks ! Suc i)))"

section \<open>The resolution order in the words of the specification\<close>

text \<open>
  The specification describes resolution as a search through candidates in a fixed priority
  order: the name exactly as given, then the base name (one recognised compression suffix
  stripped) with \<^verbatim>\<open>.xz\<close>, \<^verbatim>\<open>.gz\<close>, \<^verbatim>\<open>.bz2\<close>, \<^verbatim>\<open>.zip\<close> appended, then the bare base name.
  The definitions of this section follow that description and not the code; the theorems
  compare them with \<open>ReadableFilename\<close> and \<open>WritableFilename\<close>.
\<close>

definition base_name :: "string \<Rightarrow> string" where
  "base_name n =
     (case find (HasSuffix n) [''.xz'', ''.gz'', ''.bz2'', ''.zip''] of
        Some suffix \<Rightarrow> take (length n - length suffix) n
      | None \<Rightarrow> n)"

definition exact_candidate :: "string \<Rightarrow> string \<times> cmd option \<times> int" where
  "exact_candidate n =
     (if HasSuffix n ''.xz'' then (n, Some (exec_Command ''/usr/bin/xzcat'' [n]), 1)
      else if HasSuffix n ''.gz'' then (n, Some (exec_Command ''/bin/zcat'' [n]), 2)
      else if HasSuffix n ''.bz2'' then (n, Some (exec_Command ''/usr/bin/bzcat'' [n]), 3)
      else if HasSuffix n ''.zip'' then (n, Some (exec_Command ''/usr/bin/unzip -p'' [n]), 4)
      else if HasSuffix n ''.bash'' then (n, Some (exec_Command n []), 5)
      else (n, Some (exec_Command ''/bin/cat'' [n]), 6))"

definition fallback_candidates :: "string \<Rightarrow> (string \<times> cmd option \<times> int) list" where
  "fallback_candidates n =
     [(base_name n @ ''.xz'', Some (exec_Command ''/usr/bin/xzcat'' [base_name n @ ''.xz'']), 7),
      (base_name n @ ''.gz'', Some (exec_Command ''/bin/zcat'' [base_name n @ ''.gz'']), 8),
      (base_name n @ ''.bz2'', Some (exec_Command ''/usr/bin/bzcat'' [base_name n @ ''.bz2'']), 9),
      (base_name n @ ''.zip'', Some (exec_Command ''/usr/bin/unzip -p'' [base_name n @ ''.zip'']), 10),
      (base_name n, Some (exec_Command ''/bin/cat'' [base_name n]), 11)]"

definition read_candidates :: "string \<Rightarrow> (string \<times> cmd option \<times> int) list" where
  "read_candidates n = exact_candidate n # fallback_candidates n"

definition not_found :: "string \<times> cmd option \<times> int" where
  "not_found = (''/dev/null'', None, 0)"

definition resolveReadable :: "world \<Rightarrow> string \<Rightarrow> string \<times> cmd option \<times> int" where
  "resolveReadable w n =
     (case find (\<lambda>c. PathOK w (fst c)) (read_candidates n) of
        Some c \<Rightarrow> c
      | None \<Rightarrow> not_found)"

text \<open>
  For writing, the candidates are the same paths in the same order; the status code of the
  exact name is that of its compression suffix, or 6.
\<close>

definition write_candidates :: "string \<Rightarrow> (string \<times> int) list" where
  "write_candidates n =
     (n, if HasSuffix n ''.xz'' then 1 else if HasSuffix n ''.gz'' then 2
         else if HasSuffix n ''.bz2'' then 3 else if HasSuffix n ''.zip'' then 4 else 6)
     # map (\<lambda>c. (fst c, snd (snd c))) (fallback_candidates n)"

definition first_existing :: "world \<Rightarrow> string \<Rightarrow> (string \<times> int) option" where
  "first_existing w n = find (\<lambda>c. PathOK w (fst c)) (write_candidates n)"

section \<open>Example environments\<close>

text \<open>
  An environment holding the listed files (path, mode bits, content) and nothing else:
  removal succeeds, a listed file opens, every command starts and prints nothing, and the
  decoders hand the bytes through.
\<close>

definition files_world :: "(string \<times> 32 word \<times> char list) list \<Rightarrow> world" where
  "files_world fs =
     \<lparr>os_Stat = (\<lambda>p. case map_of fs p of Some (m, d) \<Rightarrow> Some \<lparr>Mode = m\<rparr> | None \<Rightarrow> None),
      os_Remove = (\<lambda>p. None),
      os_Open = (\<lambda>p. case map_of fs p of Some (m, d) \<Rightarrow> Inr d | None \<Rightarrow> Inl (Err ''open'')),
      cmd_StdoutPipe = (\<lambda>c. None),
      cmd_Start = (\<lambda>c. Started []),
      gzip_NewReader = (\<lambda>b. Inr b),
      bzip2_NewReader = (\<lambda>b. b)\<rparr>"

definition w_foo :: world where
  "w_foo = files_world
     [(''foo'', 0x1A4, ''a''), (''foo.gz'', 0x1A4, ''b''), (''foo.bz2'', 0x1A4, ''c'')]"

definition w_gz :: world where
  "w_gz = files_world [(''foo.gz'', 0x1A4, ''b'')]"

text \<open>A script without execute permission (mode 0644) and one with it (mode 0755).\<close>

definition w_job :: world where
  "w_job = files_world [(''job.bash'', 0x1A4, ''echo'')]"

definition w_run :: world where
  "w_run = files_world [(''run.bash'', 0x1ED, ''echo'')]"

definition w_none :: world where
  "w_none = files_world []"

text \<open>Only a compressed sibling of the script \<^verbatim>\<open>job.bash\<close> exists.\<close>

definition w_sibling :: world where
  "w_sibling = files_world [(''job.bash.gz'', 0x1A4, ''z'')]"

text \<open>
  A plain file whose last line has no line end, a compressed file of two complete lines,
  and an environment in which no command can be started.
\<close>

definition w_ab :: world where
  "w_ab = files_world [(''f'', 0x1A4, [CHR ''a'', LF, CHR ''b''])]"

definition w_lines :: world where
  "w_lines = files_world [(''g.gz'', 0x1A4, [CHR ''a'', LF, CHR ''b'', CHR ''c'', LF])]"

definition w_nostart :: world where
  "w_nostart = (files_world [(''data.xz'', 0x1A4, ''x'')])
     \<lparr>cmd_Start := (\<lambda>c. StartFails (Err ''fork/exec /usr/bin/xzcat: no such file or directory''))\<rparr>"

section \<open>Lines and their count\<close>

text \<open>
  \<open>lines_short s\<close>: every line of \<open>s\<close> (a stretch without line feed, up to the next line
  feed or the end) is shorter than the buffer, so that \<^verbatim>\<open>ReadLine\<close> returns it in one call.
\<close>

function lines_short :: "char list \<Rightarrow> bool" where
  "lines_short s =
     (if s = [] then True
      else length (takeWhile (\<lambda>c. c \<noteq> LF) s) < buf_size \<and>
           lines_short (drop (Suc (length (takeWhile (\<lambda>c. c \<noteq> LF) s))) s))"
  by pat_completeness auto
termination
  by (relation "measure length") auto

declare GetNumLines_loop.simps [simp del] lines_short.simps [simp del]

text \<open>
  The lines of a stream: the records ended by a line feed, and the rest after the last line
  feed when there is one.
\<close>

definition line_count :: "char list \<Rightarrow> nat" where
  "line_count s = count_list s LF + (if s = [] \<or> last s = LF then 0 else 1)"

section \<open>Example maps\<close>

text \<open>The maps of the specification's examples, and one that holds a NaN.\<close>

definition m_bac :: "(string \<times> int) list" where
  "m_bac = [(''b'', 1), (''a'', 2), (''c'', 3)]"

definition m_ints :: "(int \<times> int) list" where
  "m_ints = [(3, 30), (-1, 10), (2, 20)]"

definition m_xyz :: "(string \<times> float64) list" where
  "m_xyz = [(''x'', Finite 3), (''y'', Finite 1), (''z'', Finite 2)]"

definition m_pqr :: "(string \<times> float64) list" where
  "m_pqr = [(''p'', Finite (-5)), (''q'', Finite 3), (''r'', Finite (-4))]"

definition m_nan :: "(string \<times> float64) list" where
  "m_nan = [(''a'', NaN), (''b'', Finite 1)]"

section \<open>Auxiliary notions for the sorted keys\<close>

text \<open>The struct that the first loop of the by-value functions builds from a map entry.\<close>

definition mk_elem :: "string \<times> float64 \<Rightarrow> myelemFloat64" where
  "mk_elem e = \<lparr>elem_kk = fst e, elem_val = snd e\<rparr>"

text \<open>
  A sorted permutation of the keys, and the result that is the only one: it is a sorted
  permutation, and every sorted permutation is equal to it.
\<close>

definition sorted_permutation :: "'a::linorder list \<Rightarrow> 'a list \<Rightarrow> bool" where
  "sorted_permutation keys ks \<longleftrightarrow> mset ks = mset keys \<and> sorted ks"

definition unique_sorted_permutation :: "'a::linorder list \<Rightarrow> panic + 'a list \<Rightarrow> bool" where
  "unique_sorted_permutation keys r =
     (case r of
        Inl p \<Rightarrow> False
      | Inr ks \<Rightarrow>
          sorted_permutation keys ks \<and> (\<forall>ks'. sorted_permutation keys ks' \<longrightarrow> ks' = ks))"

section \<open>Facts about the environment and about suffixes\<close>

lemma files_world_simps:
  "os_Stat (files_world fs) p = (case map_of fs p of Some (m, d) \<Rightarrow> Some \<lparr>Mode = m\<rparr> | None \<Rightarrow> None)"
  "os_Remove (files_world fs) p = None"
  "os_Open (files_world fs) p = (case map_of fs p of Some (m, d) \<Rightarrow> Inr d | None \<Rightarrow> Inl (Err ''open''))"
  "cmd_StdoutPipe (files_world fs) c = None"
  "cmd_Start (files_world fs) c = Started []"
  "gzip_NewReader (files_world fs) b = Inr b"
  "bzip2_NewReader (files_world fs) b = b"
  by (simp_all add: files_world_def)

lemma HasSuffix_last:
  assumes "HasSuffix s suffix" and "suffix \<noteq> []"
  shows "last s = last suffix"
proof -
  from assms(1) have "drop (length s - length suffix) s = suffix"
    by (simp add: HasSuffix_def)
  then have "s = take (length s - length suffix) s @ suffix"
    by (metis append_take_drop_id)
  then have "last s = last (take (length s - length suffix) s @ suffix)"
    by simp
  with assms(2) show ?thesis
    by simp
qed

lemma bash_not_compressed:
  assumes "HasSuffix n ''.bash''"
  shows "\<not> HasSuffix n ''.xz''" "\<not> HasSuffix n ''.gz''" "\<not> HasSuffix n ''.bz2''"
    "\<not> HasSuffix n ''.zip''"
  using HasSuffix_last [OF assms] HasSuffix_last [of n "''.xz''"] HasSuffix_last [of n "''.gz''"]
    HasSuffix_last [of n "''.bz2''"] HasSuffix_last [of n "''.zip''"]
  by auto

lemma base_name_tmpf: "base_name n = tmpf_of n"
  by (simp add: base_name_def tmpf_of_def eval_nat_numeral)

lemma ReadableFilename_exact:
  assumes "\<not> HasSuffix n ''.bash''" and "PathOK w n"
  shows "ReadableFilename w n = Inr (exact_candidate n)"
  using assms by (simp add: ReadableFilename_def exact_candidate_def)

lemma ReadableFilename_fallback:
  assumes "\<not> HasSuffix n ''.bash''" and "\<not> PathOK w n"
  shows "ReadableFilename w n =
     Inr (case find (\<lambda>c. PathOK w (fst c)) (fallback_candidates n) of
            Some c \<Rightarrow> c | None \<Rightarrow> not_found)"
  using assms
  by (simp add: ReadableFilename_def fallback_candidates_def not_found_def Let_def base_name_tmpf)

lemma fst_exact_candidate: "fst (exact_candidate n) = n"
  by (simp add: exact_candidate_def)

lemma ReadableFilename_not_bash:
  "\<not> HasSuffix n ''.bash'' \<Longrightarrow> ReadableFilename w n = Inr (resolveReadable w n)"
  by (cases "PathOK w n")
     (simp_all add: ReadableFilename_exact ReadableFilename_fallback resolveReadable_def
        read_candidates_def fst_exact_candidate)

lemma ReadableFilename_bash:
  assumes "HasSuffix n ''.bash''"
  shows "ReadableFilename w n =
     (if FileExecutable w n then Inr (''/dev/null'', Some (exec_Command n []), 5)
      else Inl (Panic (''bash file exists without execute permissions:'' @ n)))"
  using assms bash_not_compressed [OF assms] by (simp add: ReadableFilename_def)

section \<open>Read resolution\<close>

text \<open>
  Claim C1, as amended. For every filename that does not end in \<^verbatim>\<open>.bash\<close>,
  \<open>ReadableFilename\<close> follows the priority order of the specification: it returns the name
  exactly as given when that path exists, with the access method of its suffix, and
  otherwise the first existing candidate among base+\<^verbatim>\<open>.xz\<close>, base+\<^verbatim>\<open>.gz\<close>, base+\<^verbatim>\<open>.bz2\<close>,
  base+\<^verbatim>\<open>.zip\<close> and the bare base name, with its access method, or the not-found result.
  A name ending in \<^verbatim>\<open>.bash\<close> that is executable resolves to the execution of exactly that
  file (code 5); one that exists without execute permission makes \<open>ReadableFilename\<close> panic.
\<close>

theorem C1_read_resolution_priority:
  "(\<not> HasSuffix n ''.bash'' \<longrightarrow> ReadableFilename w n = Inr (resolveReadable w n)) \<and>
   (HasSuffix n ''.bash'' \<and> FileExecutable w n \<longrightarrow>
      (\<exists>ofname. ReadableFilename w n = Inr (ofname, Some (exec_Command n []), 5))) \<and>
   (HasSuffix n ''.bash'' \<and> PathOK w n \<and> \<not> FileExecutable w n \<longrightarrow>
      (\<exists>msg. ReadableFilename w n = Inl (Panic msg)))"
  by (simp add: ReadableFilename_not_bash ReadableFilename_bash)

text \<open>
  Instances of C1: with \<^verbatim>\<open>foo\<close>, \<^verbatim>\<open>foo.gz\<close> and \<^verbatim>\<open>foo.bz2\<close> present, \<^verbatim>\<open>foo\<close> resolves to
  the plain file and the missing \<^verbatim>\<open>foo.zip\<close> to \<^verbatim>\<open>foo.gz\<close>; an executable script resolves
  to its execution, and a script without execute permission panics.
\<close>

theorem C1_read_resolution_priority_witness:
  "\<not> HasSuffix ''foo'' ''.bash'' \<and>
   ReadableFilename w_foo ''foo'' = Inr (''foo'', Some (exec_Command ''/bin/cat'' [''foo'']), 6) \<and>
   \<not> HasSuffix ''foo.zip'' ''.bash'' \<and>
   ReadableFilename w_foo ''foo.zip'' =
     Inr (''foo.gz'', Some (exec_Command ''/bin/zcat'' [''foo.gz'']), 8) \<and>
   HasSuffix ''run.bash'' ''.bash'' \<and> FileExecutable w_run ''run.bash'' \<and>
   (\<exists>ofname. ReadableFilename w_run ''run.bash'' =
      Inr (ofname, Some (exec_Command ''run.bash'' []), 5)) \<and>
   HasSuffix ''job.bash'' ''.bash'' \<and> PathOK w_job ''job.bash'' \<and>
   \<not> FileExecutable w_job ''job.bash'' \<and>
   (\<exists>msg. ReadableFilename w_job ''job.bash'' = Inl (Panic msg))"
proof -
  have a: "\<not> HasSuffix ''foo'' ''.bash''" "\<not> HasSuffix ''foo.zip'' ''.bash''"
    "HasSuffix ''run.bash'' ''.bash''" "HasSuffix ''job.bash'' ''.bash''"
    by (simp_all add: HasSuffix_def)
  have b: "FileExecutable w_run ''run.bash''" "PathOK w_job ''job.bash''"
    "\<not> FileExecutable w_job ''job.bash''"
    by (simp_all add: w_run_def w_job_def files_world_simps PathOK_def FileExecutable_def)
  have c: "resolveReadable w_foo ''foo'' = (''foo'', Some (exec_Command ''/bin/cat'' [''foo'']), 6)"
    by (simp add: w_foo_def files_world_simps PathOK_def resolveReadable_def read_candidates_def
      exact_candidate_def HasSuffix_def)
  have d: "resolveReadable w_foo ''foo.zip'' =
      (''foo.gz'', Some (exec_Command ''/bin/zcat'' [''foo.gz'']), 8)"
    by (simp add: w_foo_def files_world_simps PathOK_def resolveReadable_def read_candidates_def
      exact_candidate_def fallback_candidates_def base_name_def HasSuffix_def)
  show ?thesis
    using C1_read_resolution_priority [of "''foo''" w_foo]
      C1_read_resolution_priority [of "''foo.zip''" w_foo]
      C1_read_resolution_priority [of "''run.bash''" w_run]
      C1_read_resolution_priority [of "''job.bash''" w_job] a b c d
    by simp
qed

text \<open>
  Claim C1 as stated fails: \<^verbatim>\<open>job.bash\<close> exists, so by the claim it is returned as given
  with script execution as its access method; the code panics, since the file is not
  executable.
\<close>

theorem C1_read_resolution_counterexample:
  "PathOK w_job ''job.bash'' \<and>
   resolveReadable w_job ''job.bash'' = (''job.bash'', Some (exec_Command ''job.bash'' []), 5) \<and>
   ReadableFilename w_job ''job.bash'' =
     Inl (Panic ''bash file exists without execute permissions:job.bash'')"
  by (simp add: w_job_def files_world_simps PathOK_def resolveReadable_def read_candidates_def
      exact_candidate_def HasSuffix_def ReadableFilename_def FileExecutable_def)

lemma PathOK_w_none: "PathOK w_none p = False"
  by (simp add: PathOK_def w_none_def files_world_simps)

lemma ReadableFilename_not_found:
  assumes "\<not> HasSuffix n ''.bash''"
    and "find (\<lambda>c. PathOK w (fst c)) (read_candidates n) = None"
  shows "ReadableFilename w n = Inr (''/dev/null'', None, 0)"
  using assms by (simp add: ReadableFilename_not_bash resolveReadable_def not_found_def)

text \<open>
  Claim C2 fails on the code for a missing name that ends in \<^verbatim>\<open>.bash\<close>: no candidate
  exists in the empty environment, and \<open>ReadableFilename\<close> panics instead of returning the
  not-found result.
\<close>

theorem C2_missing_bash_panics:
  "find (\<lambda>c. PathOK w_none (fst c)) (read_candidates ''missing.bash'') = None \<and>
   ReadableFilename w_none ''missing.bash'' =
     Inl (Panic ''bash file exists without execute permissions:missing.bash'')"
proof -
  have "\<not> FileExecutable w_none ''missing.bash''"
    by (simp add: FileExecutable_def w_none_def files_world_simps)
  then show ?thesis
    by (simp add: PathOK_w_none read_candidates_def fallback_candidates_def
        ReadableFilename_def HasSuffix_def)
qed

text \<open>
  Claim C9. For every filename ending in \<^verbatim>\<open>.bash\<close> whose file exists and is executable,
  \<open>ReadableFilename\<close> returns the command that runs the script and code 5, and leaves the
  physical path at \<^verbatim>\<open>/dev/null\<close>. For every filename ending in \<^verbatim>\<open>.bash\<close> that is not
  executable, missing files included, it panics and never reaches the search through the
  compression suffixes.
\<close>

theorem C9_bash_resolution:
  "(HasSuffix n ''.bash'' \<and> PathOK w n \<and> FileExecutable w n \<longrightarrow>
      ReadableFilename w n = Inr (''/dev/null'', Some (exec_Command n []), 5)) \<and>
   (HasSuffix n ''.bash'' \<and> \<not> FileExecutable w n \<longrightarrow>
      ReadableFilename w n =
        Inl (Panic (''bash file exists without execute permissions:'' @ n)))"
  by (simp add: ReadableFilename_bash)

text \<open>
  Instances of C9: an executable script, and a missing script whose \<^verbatim>\<open>.gz\<close> sibling
  exists and is not looked for.
\<close>

theorem C9_bash_resolution_witness:
  "HasSuffix ''run.bash'' ''.bash'' \<and> PathOK w_run ''run.bash'' \<and>
   FileExecutable w_run ''run.bash'' \<and>
   ReadableFilename w_run ''run.bash'' =
     Inr (''/dev/null'', Some (exec_Command ''run.bash'' []), 5) \<and>
   HasSuffix ''job.bash'' ''.bash'' \<and> \<not> PathOK w_sibling ''job.bash'' \<and>
   PathOK w_sibling ''job.bash.gz'' \<and> \<not> FileExecutable w_sibling ''job.bash'' \<and>
   ReadableFilename w_sibling ''job.bash'' =
     Inl (Panic ''bash file exists without execute permissions:job.bash'')"
proof -
  have a: "HasSuffix ''run.bash'' ''.bash''" "HasSuffix ''job.bash'' ''.bash''"
    by (simp_all add: HasSuffix_def)
  have b: "PathOK w_run ''run.bash''" "FileExecutable w_run ''run.bash''"
    "\<not> PathOK w_sibling ''job.bash''" "PathOK w_sibling ''job.bash.gz''"
    "\<not> FileExecutable w_sibling ''job.bash''"
    by (simp_all add: w_run_def w_sibling_def files_world_simps PathOK_def FileExecutable_def)
  show ?thesis
    using C9_bash_resolution [of "''run.bash''" w_run]
      C9_bash_resolution [of "''job.bash''" w_sibling] a b
    by simp
qed

section \<open>Write resolution\<close>

lemma WritableFilename_exact:
  assumes "PathOK w n"
  shows "WritableFilename w n = remove_and_return w n (snd (hd (write_candidates n)))"
  using assms by (simp add: WritableFilename_def write_candidates_def)

lemma WritableFilename_fallback:
  assumes "\<not> PathOK w n"
  shows "WritableFilename w n =
     (case find (\<lambda>c. PathOK w (fst c)) (tl (write_candidates n)) of
        None \<Rightarrow> Inr (w, ''/dev/null'', 0)
      | Some (p, code) \<Rightarrow> remove_and_return w p code)"
  using assms
  by (simp add: WritableFilename_def write_candidates_def fallback_candidates_def Let_def
      base_name_tmpf)

lemma remove_and_return_eq:
  "remove_and_return w p code =
     (case os_Remove w p of
        Some err \<Rightarrow> Inl (PanicErr err)
      | None \<Rightarrow> Inr (w\<lparr>os_Stat := (os_Stat w)(p := None)\<rparr>, p, code))"
  by (simp add: remove_and_return_def PathRemoveOrPanic_def remove_path_def split: option.splits)

text \<open>
  Claim C5. \<open>WritableFilename\<close> searches the candidates in the priority order of read
  resolution (the exact name, then base+\<^verbatim>\<open>.xz\<close>, \<^verbatim>\<open>.gz\<close>, \<^verbatim>\<open>.bz2\<close>, \<^verbatim>\<open>.zip\<close>, the
  bare base). It removes the first candidate that exists and returns its path and status
  code; the environment changes at that one path only. It panics when the removal fails,
  and when no candidate exists it changes nothing and returns \<^verbatim>\<open>/dev/null\<close> with code 0.
\<close>

theorem C5_write_resolution:
  "WritableFilename w n =
     (case first_existing w n of
        None \<Rightarrow> Inr (w, ''/dev/null'', 0)
      | Some (p, code) \<Rightarrow>
          (case os_Remove w p of
             Some err \<Rightarrow> Inl (PanicErr err)
           | None \<Rightarrow> Inr (w\<lparr>os_Stat := (os_Stat w)(p := None)\<rparr>, p, code)))"
proof (cases "PathOK w n")
  case True
  then show ?thesis
    by (simp add: WritableFilename_exact first_existing_def write_candidates_def
        remove_and_return_eq)
next
  case False
  then have "first_existing w n = find (\<lambda>c. PathOK w (fst c)) (tl (write_candidates n))"
    by (simp add: first_existing_def write_candidates_def)
  with False show ?thesis
    by (simp add: WritableFilename_fallback remove_and_return_eq split: option.splits)
qed

text \<open>
  Instances of C5: with only \<^verbatim>\<open>foo.gz\<close> present, resolving \<^verbatim>\<open>foo\<close> for writing removes
  \<^verbatim>\<open>foo.gz\<close>; with \<^verbatim>\<open>foo\<close>, \<^verbatim>\<open>foo.gz\<close> and \<^verbatim>\<open>foo.bz2\<close> present it removes \<^verbatim>\<open>foo\<close>
  and leaves the other two.
\<close>

theorem C5_write_resolution_witness:
  "WritableFilename w_gz ''foo'' =
     Inr (w_gz\<lparr>os_Stat := (os_Stat w_gz)(''foo.gz'' := None)\<rparr>, ''foo.gz'', 8) \<and>
   (\<exists>w'. WritableFilename w_foo ''foo'' = Inr (w', ''foo'', 6) \<and>
      \<not> PathOK w' ''foo'' \<and> PathOK w' ''foo.gz'' \<and> PathOK w' ''foo.bz2'')"
proof -
  have a: "first_existing w_gz ''foo'' = Some (''foo.gz'', 8)"
    by (simp add: first_existing_def write_candidates_def fallback_candidates_def base_name_def
        HasSuffix_def PathOK_def w_gz_def files_world_simps)
  have b: "first_existing w_foo ''foo'' = Some (''foo'', 6)"
    by (simp add: first_existing_def write_candidates_def fallback_candidates_def base_name_def
        HasSuffix_def PathOK_def w_foo_def files_world_simps)
  have c: "os_Remove w_gz p = None" "os_Remove w_foo p = None" for p
    by (simp_all add: w_gz_def w_foo_def files_world_simps)
  have d: "PathOK (w_foo\<lparr>os_Stat := (os_Stat w_foo)(''foo'' := None)\<rparr>) ''foo.gz''"
    "PathOK (w_foo\<lparr>os_Stat := (os_Stat w_foo)(''foo'' := None)\<rparr>) ''foo.bz2''"
    "\<not> PathOK (w_foo\<lparr>os_Stat := (os_Stat w_foo)(''foo'' := None)\<rparr>) ''foo''"
    by (simp_all add: PathOK_def w_foo_def files_world_simps)
  show ?thesis
    using C5_write_resolution [of w_gz "''foo''"] C5_write_resolution [of w_foo "''foo''"] a b c d
    by simp
qed

section \<open>Opening and counting lines\<close>

lemma loop_nil: "GetNumLines_loop None num = Inl NilPointerDereference"
  by (subst GetNumLines_loop.simps) simp

lemma loop_empty: "GetNumLines_loop (Some (Reader (Stream []))) num = Inr num"
  by (subst GetNumLines_loop.simps) simp

lemma loop_step:
  "s \<noteq> [] \<Longrightarrow> GetNumLines_loop (Some (Reader (Stream s))) num =
     GetNumLines_loop (Some (Reader (Stream (snd (read_chunk s))))) (num + 1)"
  by (subst GetNumLines_loop.simps) (simp split: prod.splits)

lemma count_list_none: "(\<forall>x\<in>set xs. x \<noteq> a) \<Longrightarrow> count_list xs a = 0"
  by (induction xs) auto

lemma count_list_append': "count_list (xs @ ys) a = count_list xs a + count_list ys a"
  by (induction xs) auto

lemma line_count_terminated:
  assumes "\<forall>x\<in>set pre. x \<noteq> LF"
  shows "line_count (pre @ LF # rest) = Suc (line_count rest)"
  using assms by (auto simp: line_count_def count_list_append' count_list_none)

lemma line_count_unterminated:
  assumes "\<forall>x\<in>set s. x \<noteq> LF" and "s \<noteq> []"
  shows "line_count s = 1"
  using assms by (auto simp: line_count_def count_list_none)

lemma read_chunk_line:
  assumes "length pre < buf_size" and "\<forall>x\<in>set pre. x \<noteq> LF"
  shows "snd (read_chunk (pre @ LF # rest)) = rest"
proof -
  have tw: "takeWhile (\<lambda>c. c \<noteq> LF) (pre @ LF # rest) = pre"
    using assms(2) by simp
  show ?thesis
    unfolding read_chunk_def Let_def tw using assms(1) by simp
qed

lemma read_chunk_tail:
  assumes "length s < buf_size" and "\<forall>x\<in>set s. x \<noteq> LF"
  shows "snd (read_chunk s) = []"
proof -
  have tw: "takeWhile (\<lambda>c. c \<noteq> LF) s = s"
    using assms(2) by simp
  show ?thesis
    unfolding read_chunk_def Let_def tw using assms(1) by simp
qed

lemma loop_count:
  "lines_short s \<Longrightarrow>
   GetNumLines_loop (Some (Reader (Stream s))) num = Inr (num + of_nat (line_count s))"
proof (induction s arbitrary: num rule: length_induct)
  case (1 s)
  show ?case
  proof (cases "s = []")
    case True
    then show ?thesis by (simp add: loop_empty line_count_def)
  next
    case False
    define pre where "pre = takeWhile (\<lambda>c. c \<noteq> LF) s"
    have pre: "\<forall>x\<in>set pre. x \<noteq> LF"
      unfolding pre_def by (auto dest: set_takeWhileD)
    from "1.prems" False have short: "length pre < buf_size"
      and rest_short: "lines_short (drop (Suc (length pre)) s)"
      unfolding pre_def by (simp_all add: lines_short.simps [of s])
    show ?thesis
    proof (cases "pre = s")
      case True
      with pre short False show ?thesis
        by (simp add: loop_step read_chunk_tail loop_empty line_count_unterminated)
    next
      case neq: False
      then have "\<not> (\<forall>x\<in>set s. x \<noteq> LF)"
        unfolding pre_def by simp
      then have ne: "dropWhile (\<lambda>c. c \<noteq> LF) s \<noteq> []"
        by simp
      then obtain c rest where dw: "dropWhile (\<lambda>c. c \<noteq> LF) s = c # rest"
        by (cases "dropWhile (\<lambda>c. c \<noteq> LF) s") auto
      from hd_dropWhile [OF ne] dw have c: "c = LF"
        by simp
      have "s = takeWhile (\<lambda>c. c \<noteq> LF) s @ dropWhile (\<lambda>c. c \<noteq> LF) s"
        by simp
      then have s: "s = pre @ LF # rest"
        unfolding pre_def dw c .
      have len: "length s = length pre + Suc (length rest)"
        using arg_cong [OF s, of length] by simp
      have "drop (Suc (length pre)) s = drop (Suc (length pre)) (pre @ LF # rest)"
        using s by simp
      then have rest: "drop (Suc (length pre)) s = rest"
        by simp
      from len have "length rest < length s"
        by simp
      with "1.IH" rest_short rest
      have "GetNumLines_loop (Some (Reader (Stream rest))) (num + 1) =
          Inr (num + 1 + of_nat (line_count rest))"
        by simp
      moreover have "GetNumLines_loop (Some (Reader (Stream s))) num =
          GetNumLines_loop (Some (Reader (Stream rest))) (num + 1)"
        using False read_chunk_line [OF short pre, of rest] s by (simp add: loop_step)
      moreover have "line_count s = Suc (line_count rest)"
        using line_count_terminated [OF pre, of rest] s by simp
      ultimately show ?thesis
        by simp
    qed
  qed
qed

text \<open>
  Claim C8, as amended. For every filename that resolves to a readable source whose lines
  are each shorter than the 81920-byte buffer of the reader, \<open>GetNumLines\<close> reads the
  decoded stream to its end and returns the number of records ended by a line feed, plus
  one when the stream ends in a record that is not empty and has no line feed.
\<close>

theorem C8_line_count:
  assumes "OpenAny w n = Inr (Some (Reader (Stream s)))" and "lines_short s"
  shows "GetNumLines w n =
     Inr (of_nat (count_list s LF + (if s = [] \<or> last s = LF then 0 else 1)))"
  using assms loop_count [of s 0] by (simp add: GetNumLines_def line_count_def)

text \<open>
  An instance of C8: the name \<^verbatim>\<open>g\<close> resolves to \<^verbatim>\<open>g.gz\<close>, whose decoded content is two
  complete lines.
\<close>

theorem C8_line_count_witness:
  "OpenAny w_lines ''g'' = Inr (Some (Reader (Stream [CHR ''a'', LF, CHR ''b'', CHR ''c'', LF]))) \<and>
   lines_short [CHR ''a'', LF, CHR ''b'', CHR ''c'', LF] \<and>
   GetNumLines w_lines ''g'' = Inr 2"
proof -
  have a: "OpenAny w_lines ''g'' =
      Inr (Some (Reader (Stream [CHR ''a'', LF, CHR ''b'', CHR ''c'', LF])))"
    by (simp add: OpenAny_def ReadableFilename_def tmpf_of_def HasSuffix_def PathOK_def
        w_lines_def files_world_simps bufio_NewReaderSize_def)
  have b: "lines_short [CHR ''a'', LF, CHR ''b'', CHR ''c'', LF]"
    by (simp add: lines_short.simps LF_def buf_size_def)
  from C8_line_count [OF a b] have "GetNumLines w_lines ''g'' = Inr 2"
    by (simp add: LF_def)
  with a b show ?thesis
    by simp
qed

text \<open>
  Claim C8 as stated fails: the stream of the file \<^verbatim>\<open>f\<close> holds one record ended by a line
  feed, followed by the single byte \<^verbatim>\<open>b\<close>; \<open>GetNumLines\<close> returns 2.
\<close>

theorem C8_line_count_counterexample:
  "OpenAny w_ab ''f'' = Inr (Some (Reader (Stream [CHR ''a'', LF, CHR ''b'']))) \<and>
   count_list [CHR ''a'', LF, CHR ''b''] LF = 1 \<and>
   GetNumLines w_ab ''f'' = Inr 2"
proof -
  have a: "OpenAny w_ab ''f'' = Inr (Some (Reader (Stream [CHR ''a'', LF, CHR ''b''])))"
    by (simp add: OpenAny_def ReadableFilename_def HasSuffix_def PathOK_def
        w_ab_def files_world_simps bufio_NewReaderSize_def)
  have b: "lines_short [CHR ''a'', LF, CHR ''b'']"
    by (simp add: lines_short.simps LF_def buf_size_def)
  have c: "line_count [CHR ''a'', LF, CHR ''b''] = 2"
    by (simp add: line_count_def LF_def)
  from loop_count [OF b, of 0] c
  have "GetNumLines_loop (Some (Reader (Stream [CHR ''a'', LF, CHR ''b'']))) 0 = Inr 2"
    by simp
  with a show ?thesis
    by (simp add: GetNumLines_def LF_def)
qed

text \<open>
  Claim C10. When resolution ends with status code 0 (no candidate file exists for the
  name), \<open>OpenAny\<close> returns a nil reader and does not panic, and \<open>GetNumLines\<close>, which calls
  \<^verbatim>\<open>ReadLine\<close> on that reader, panics with a nil-pointer dereference instead of returning
  a count.
\<close>

theorem C10_not_found_nil_reader:
  assumes "ReadableFilename w n = Inr (ofname, ofcmd, 0)"
  shows "OpenAny w n = Inr None \<and> GetNumLines w n = Inl NilPointerDereference"
proof -
  from assms have "OpenAny w n = Inr None"
    by (simp add: OpenAny_def)
  then show ?thesis
    by (simp add: GetNumLines_def loop_nil)
qed

text \<open>An instance of C10: a name for which nothing exists.\<close>

theorem C10_not_found_nil_reader_witness:
  "ReadableFilename w_none ''nonexistent'' = Inr (''/dev/null'', None, 0) \<and>
   OpenAny w_none ''nonexistent'' = Inr None \<and>
   GetNumLines w_none ''nonexistent'' = Inl NilPointerDereference"
proof -
  have "\<not> HasSuffix ''nonexistent'' ''.bash''"
    by (simp add: HasSuffix_def)
  then have a: "ReadableFilename w_none ''nonexistent'' = Inr (''/dev/null'', None, 0)"
    by (rule ReadableFilename_not_found)
       (simp add: PathOK_w_none read_candidates_def fallback_candidates_def)
  from C10_not_found_nil_reader [OF a] a show ?thesis
    by simp
qed

section \<open>A subprocess that does not start\<close>

text \<open>
  \<open>OpenAny\<close> tests the error of \<^verbatim>\<open>StdoutPipe\<close> only: whatever \<^verbatim>\<open>Start\<close> returns, the
  result is a reader on the pipe. \<open>OpenAnyErr\<close> returns the error of \<^verbatim>\<open>Start\<close>.
\<close>

lemma OpenAny_spawn:
  assumes "ReadableFilename w n = Inr (ofname, Some c, ofcode)"
    and "ofcode = 1 \<or> ofcode = 7 \<or> ofcode = 4 \<or> ofcode = 10 \<or> ofcode = 5"
  shows "OpenAny w n =
     (case cmd_StdoutPipe w c of
        Some e \<Rightarrow> Inl (LogPanicf ''genutil.OpenAny'' e n ofcode)
      | None \<Rightarrow> Inr (Some (Reader (pipe_source (cmd_Start w c)))))"
  using assms by (auto simp: OpenAny_def bufio_NewReaderSize_def split: option.splits)

lemma OpenAnyErr_spawn:
  assumes "ReadableFilename w n = Inr (ofname, Some c, ofcode)"
    and "ofcode = 1 \<or> ofcode = 7 \<or> ofcode = 4 \<or> ofcode = 10 \<or> ofcode = 5"
    and "cmd_StdoutPipe w c = None" and "cmd_Start w c = StartFails e"
  shows "OpenAnyErr w n = Inr (None, Some e)"
  using assms by (auto simp: OpenAnyErr_def)

text \<open>
  Claim C7 fails on the code for \<open>OpenAny\<close> and \<open>OpenAnyIO\<close>: \<^verbatim>\<open>data.xz\<close> exists and the
  decompressor cannot be started; both return a reader and do not panic, while
  \<open>OpenAnyErr\<close> returns the error.
\<close>

theorem C7_start_failure_ignored:
  "ReadableFilename w_nostart ''data.xz'' =
     Inr (''data.xz'', Some (exec_Command ''/usr/bin/xzcat'' [''data.xz'']), 1) \<and>
   cmd_StdoutPipe w_nostart (exec_Command ''/usr/bin/xzcat'' [''data.xz'']) = None \<and>
   cmd_Start w_nostart (exec_Command ''/usr/bin/xzcat'' [''data.xz'']) =
     StartFails (Err ''fork/exec /usr/bin/xzcat: no such file or directory'') \<and>
   OpenAny w_nostart ''data.xz'' = Inr (Some (Reader (Stream []))) \<and>
   OpenAnyIO w_nostart ''data.xz'' = Inr (Some (Stream [])) \<and>
   OpenAnyErr w_nostart ''data.xz'' =
     Inr (None, Some (Err ''fork/exec /usr/bin/xzcat: no such file or directory''))"
proof -
  have a: "ReadableFilename w_nostart ''data.xz'' =
      Inr (''data.xz'', Some (exec_Command ''/usr/bin/xzcat'' [''data.xz'']), 1)"
    by (simp add: ReadableFilename_def HasSuffix_def PathOK_def w_nostart_def files_world_simps)
  have b: "cmd_StdoutPipe w_nostart c = None"
    "cmd_Start w_nostart c = StartFails (Err ''fork/exec /usr/bin/xzcat: no such file or directory'')"
    for c
    by (simp_all add: w_nostart_def files_world_simps)
  show ?thesis
    by (simp add: a b OpenAny_def OpenAnyIO_def OpenAnyErr_def bufio_NewReaderSize_def
        pipe_source_def)
qed

section \<open>The loops of the sorted-keys functions\<close>

text \<open>
  The index \<^verbatim>\<open>ii\<close> stays in range, so no loop panics: the first loop collects the keys (or
  the elements) of the map in the order of the iteration, the last one the keys of the
  sorted elements.
\<close>

lemma range_keys_fill:
  "ii + length m \<le> length keys \<Longrightarrow>
   range_keys keys ii m = Inr (take ii keys @ map fst m @ drop (ii + length m) keys)"
proof (induction m arbitrary: keys ii)
  case Nil
  then show ?case by simp
next
  case (Cons e rest)
  obtain kk vv where e: "e = (kk, vv)"
    by (cases e)
  from Cons.prems have ii: "ii < length keys"
    and le: "Suc ii + length rest \<le> length (keys[ii := kk])"
    by simp_all
  have "take (Suc ii) (keys[ii := kk]) = take ii keys @ [kk]"
    using ii by (simp add: take_Suc_conv_app_nth)
  with Cons.IH [OF le] ii show ?case
    by (simp add: e)
qed

lemma range_keys_all: "range_keys (replicate (length m) z) 0 m = Inr (map fst m)"
  using range_keys_fill [of 0 m "replicate (length m) z"] by simp

lemma SortedKeys_generic_eq:
  "SortedKeys_generic sort_keys z (Some m) = Inr (sort_keys (map fst m))"
  by (simp add: SortedKeys_generic_def range_keys_all)

lemma range_elems_fill:
  "ii + length m \<le> length mp \<Longrightarrow>
   range_elems mp ii m = Inr (take ii mp @ map mk_elem m @ drop (ii + length m) mp)"
proof (induction m arbitrary: mp ii)
  case Nil
  then show ?case by simp
next
  case (Cons e rest)
  obtain kk vv where e: "e = (kk, vv)"
    by (cases e)
  let ?mp = "mp[ii := (mp ! ii)\<lparr>elem_kk := kk, elem_val := vv\<rparr>]"
  from Cons.prems have ii: "ii < length mp" and le: "Suc ii + length rest \<le> length ?mp"
    by simp_all
  have "take (Suc ii) ?mp = take ii mp @ [mk_elem e]"
    using ii by (simp add: take_Suc_conv_app_nth mk_elem_def e)
  with Cons.IH [OF le] ii show ?case
    by (simp add: e)
qed

lemma range_elems_all: "range_elems (replicate (length m) z) 0 m = Inr (map mk_elem m)"
  using range_elems_fill [of 0 m "replicate (length m) z"] by simp

lemma range_kkarr_fill:
  "ii + length es \<le> length kkarr \<Longrightarrow>
   range_kkarr kkarr ii es =
     Inr (take ii kkarr @ map elem_kk es @ drop (ii + length es) kkarr)"
proof (induction es arbitrary: kkarr ii)
  case Nil
  then show ?case by simp
next
  case (Cons e rest)
  from Cons.prems have ii: "ii < length kkarr"
    and le: "Suc ii + length rest \<le> length (kkarr[ii := elem_kk e])"
    by simp_all
  have "take (Suc ii) (kkarr[ii := elem_kk e]) = take ii kkarr @ [elem_kk e]"
    using ii by (simp add: take_Suc_conv_app_nth)
  with Cons.IH [OF le] ii show ?case
    by simp
qed

lemma range_kkarr_all:
  "length es = n \<Longrightarrow> range_kkarr (replicate n z) 0 es = Inr (map elem_kk es)"
  using range_kkarr_fill [of 0 es "replicate n z"] by simp

lemma SortedKeysByVal_generic_eq:
  assumes "sort_permutes srt"
  shows "SortedKeysByVal_generic srt Less (Some m) =
     Inr (map elem_kk (srt Less (map mk_elem m)))"
proof -
  from assms have "mset (srt Less (map mk_elem m)) = mset (map mk_elem m)"
    unfolding sort_permutes_def keeps_elements_def by blast
  then have "length (srt Less (map mk_elem m)) = length m"
    by (metis length_map size_mset)
  then show ?thesis
    by (simp add: SortedKeysByVal_generic_def Let_def range_elems_all range_kkarr_all)
qed

section \<open>Insertion sort keeps the promises of the library\<close>

lemma mset_sift: "mset (sift lt x acc) = add_mset x (mset acc)"
  by (induction acc) auto

lemma set_sift: "set (sift lt x acc) = insert x (set acc)"
  using mset_sift [of lt x acc] by (metis set_mset_add_mset_insert set_mset_mset)

lemma mset_foldl_sift: "mset (foldl (\<lambda>acc x. sift lt x acc) acc xs) = mset acc + mset xs"
  by (induction xs arbitrary: acc) (auto simp: mset_sift)

lemma mset_insertionSort: "mset (insertionSort lt xs) = mset xs"
  by (simp add: insertionSort_def mset_foldl_sift)

lemma sorted_sift:
  assumes "transitive_ordering_on A lt" and "x \<in> A" and "set acc \<subseteq> A"
    and "sorted_wrt (\<lambda>a b. \<not> lt a b) acc"
  shows "sorted_wrt (\<lambda>a b. \<not> lt a b) (sift lt x acc)"
  using assms(3,4)
proof (induction acc)
  case Nil
  then show ?case by simp
next
  case (Cons y ys)
  from Cons.prems have y: "y \<in> A" and ys: "set ys \<subseteq> A"
    and later: "\<forall>z\<in>set ys. \<not> lt y z" and sorted: "sorted_wrt (\<lambda>a b. \<not> lt a b) ys"
    by simp_all
  show ?case
  proof (cases "lt x y")
    case True
    have "\<not> lt y x"
    proof
      assume "lt y x"
      with True assms(1,2) y have "lt x x"
        unfolding transitive_ordering_on_def by blast
      with assms(1,2) show False
        unfolding transitive_ordering_on_def by blast
    qed
    with True later Cons.IH [OF ys sorted] show ?thesis
      by (simp add: set_sift)
  next
    case False
    have "\<not> lt x z" if "z \<in> set ys" for z
    proof -
      from that later ys have "\<not> lt y z" and "z \<in> A"
        by auto
      with False assms(1,2) y show ?thesis
        unfolding transitive_ordering_on_def by blast
    qed
    with False Cons.prems show ?thesis
      by simp
  qed
qed

lemma sorted_foldl_sift:
  assumes "transitive_ordering_on A lt"
  shows "set xs \<subseteq> A \<Longrightarrow> set acc \<subseteq> A \<Longrightarrow> sorted_wrt (\<lambda>a b. \<not> lt a b) acc \<Longrightarrow>
    sorted_wrt (\<lambda>a b. \<not> lt a b) (foldl (\<lambda>acc x. sift lt x acc) acc xs)"
proof (induction xs arbitrary: acc)
  case Nil
  then show ?case by simp
next
  case (Cons x xs)
  from Cons.prems have x: "x \<in> A" and xs: "set xs \<subseteq> A"
    by simp_all
  have "set (sift lt x acc) \<subseteq> A"
    using x Cons.prems(2) by (simp add: set_sift)
  moreover have "sorted_wrt (\<lambda>a b. \<not> lt a b) (sift lt x acc)"
    using sorted_sift [OF assms x Cons.prems(2,3)] .
  ultimately show ?case
    using Cons.IH [OF xs] by simp
qed

lemma sorted_insertionSort:
  assumes "transitive_ordering_on (set xs) lt"
  shows "sorted_wrt (\<lambda>a b. \<not> lt b a) (insertionSort lt xs)"
proof -
  have "sorted_wrt (\<lambda>a b. \<not> lt a b) (foldl (\<lambda>acc x. sift lt x acc) [] xs)"
    using sorted_foldl_sift [OF assms, of xs "[]"] by simp
  then show ?thesis
    by (simp add: insertionSort_def sorted_wrt_rev)
qed

lemma insertionSort_contract: "sort_Sort_contract insertionSort"
  by (simp add: sort_Sort_contract_def sort_permutes_def keeps_elements_def
      mset_insertionSort sorted_insertionSort)

lemma insertionSort_permutes: "sort_permutes insertionSort"
  by (simp add: sort_permutes_def keeps_elements_def mset_insertionSort)

lemma linorder_transitive_ordering: "transitive_ordering_on A ((<) :: 'a::linorder \<Rightarrow> 'a \<Rightarrow> bool)"
  unfolding transitive_ordering_on_def by auto

lemma insertionSort_increasing: "sorts_increasing (insertionSort ((<) :: 'a::linorder \<Rightarrow> 'a \<Rightarrow> bool))"
proof -
  have "sorted (insertionSort (<) xs)" for xs :: "'a list"
  proof -
    have "sorted_wrt (\<lambda>a b. \<not> b < a) (insertionSort (<) xs)"
      by (rule sorted_insertionSort) (rule linorder_transitive_ordering)
    then show ?thesis
      by (simp add: not_less)
  qed
  then show ?thesis
    by (simp add: sorts_increasing_def keeps_elements_def mset_insertionSort)
qed

section \<open>The order of float64\<close>

lemma f64_less_irrefl: "\<not> f64_less x x"
  by (cases x) simp_all

lemma f64_less_trans: "f64_less x y \<Longrightarrow> f64_less y z \<Longrightarrow> f64_less x z"
  by (cases x; cases y; cases z) simp_all

lemma f64_less_negtrans:
  "y \<noteq> NaN \<Longrightarrow> \<not> f64_less x y \<Longrightarrow> \<not> f64_less y z \<Longrightarrow> \<not> f64_less x z"
  by (cases x; cases y; cases z) simp_all

lemma f64_not_less_le: "x \<noteq> NaN \<Longrightarrow> y \<noteq> NaN \<Longrightarrow> \<not> f64_less y x \<Longrightarrow> f64_le x y"
  by (cases x; cases y) simp_all

lemma math_Abs_NaN: "math_Abs x = NaN \<longleftrightarrow> x = NaN"
  by (cases x) simp_all

lemma f64_ordering:
  assumes "\<forall>e\<in>A. g e \<noteq> NaN"
  shows "transitive_ordering_on A (\<lambda>a b. f64_less (g a) (g b))"
    and "transitive_ordering_on A (\<lambda>a b. f64_less (g b) (g a))"
proof -
  have irr: "\<not> f64_less (g x) (g x)" for x
    by (rule f64_less_irrefl)
  have trans: "f64_less (g x) (g y) \<Longrightarrow> f64_less (g y) (g z) \<Longrightarrow> f64_less (g x) (g z)"
    for x y z
    by (rule f64_less_trans)
  have neg: "\<not> f64_less (g x) (g z)"
    if "y \<in> A" and "\<not> f64_less (g x) (g y)" and "\<not> f64_less (g y) (g z)" for x y z
    using that assms f64_less_negtrans [of "g y" "g x" "g z"] by blast
  show "transitive_ordering_on A (\<lambda>a b. f64_less (g a) (g b))"
    unfolding transitive_ordering_on_def using irr trans neg by blast
  show "transitive_ordering_on A (\<lambda>a b. f64_less (g b) (g a))"
    unfolding transitive_ordering_on_def using irr trans neg by blast
qed

section \<open>The keys come out as a permutation\<close>

lemma permutation_of_keys_mset:
  assumes "mset ks = mset (map fst m)"
  shows "permutation_of_keys m (Inr ks)"
proof -
  from assms have "size (mset ks) = size (mset (map fst m))" and "set_mset (mset ks) = set_mset (mset (map fst m))"
    by simp_all
  then have "length ks = length m" and "set ks = fst ` set m"
    by simp_all
  with assms show ?thesis
    by (simp add: permutation_of_keys_def)
qed

lemma SortedKeys_generic_permutation:
  assumes "keeps_elements f"
  shows "permutation_of_keys m (SortedKeys_generic f z (Some m))"
  using assms
  by (simp add: SortedKeys_generic_eq keeps_elements_def permutation_of_keys_mset)

lemma elem_kk_mk_elem: "map elem_kk (map mk_elem m) = map fst m"
  by (simp add: mk_elem_def)

lemma SortedKeysByVal_generic_permutation:
  assumes "sort_permutes srt"
  shows "permutation_of_keys m (SortedKeysByVal_generic srt Less (Some m))"
proof -
  from assms have "mset (srt Less (map mk_elem m)) = mset (map mk_elem m)"
    unfolding sort_permutes_def keeps_elements_def by blast
  then have "mset (map elem_kk (srt Less (map mk_elem m))) = mset (map elem_kk (map mk_elem m))"
    by (metis mset_map)
  then have "mset (map elem_kk (srt Less (map mk_elem m))) = mset (map fst m)"
    by (simp only: elem_kk_mk_elem)
  then show ?thesis
    by (simp only: SortedKeysByVal_generic_eq [OF assms] permutation_of_keys_mset)
qed

text \<open>
  Claim C4. For every map, the output of each \<open>SortedKeys_*\<close> and each
  \<open>SortedKeysByVal_*\<close> function is a permutation of the keys of the map: it has as many
  entries as the map has keys, and as a set it is the key set. This holds for every sort
  that only rearranges its slice, whatever the values are.
\<close>

theorem C4_keys_permutation:
  assumes "keeps_elements sort_Strings" and "keeps_elements sort_Ints"
    and "sort_permutes sort_Sort"
  shows "permutation_of_keys m1 (SortedKeys_String2Int sort_Strings (Some m1)) \<and>
    permutation_of_keys m2 (SortedKeys_String2Int64 sort_Strings (Some m2)) \<and>
    permutation_of_keys m3 (SortedKeys_String2Float64 sort_Strings (Some m3)) \<and>
    permutation_of_keys m4 (SortedKeys_String2Bool sort_Strings (Some m4)) \<and>
    permutation_of_keys m5 (SortedKeys_String2String sort_Strings (Some m5)) \<and>
    permutation_of_keys m6 (SortedKeys_Int2Int sort_Ints (Some m6)) \<and>
    permutation_of_keys m (SortedKeysByVal_String2Float64_Ascending sort_Sort (Some m)) \<and>
    permutation_of_keys m (SortedKeysByVal_String2Float64_AbsAscending sort_Sort (Some m)) \<and>
    permutation_of_keys m (SortedKeysByVal_String2Float64_Descending sort_Sort (Some m)) \<and>
    permutation_of_keys m (SortedKeysByVal_String2Float64_AbsDescending sort_Sort (Some m))"
proof -
  note by_key = SortedKeys_generic_permutation [OF assms(1)]
    SortedKeys_generic_permutation [OF assms(2)]
  note by_val = SortedKeysByVal_generic_permutation [OF assms(3)]
  show ?thesis
    unfolding SortedKeys_String2Int_def SortedKeys_String2Int64_def
      SortedKeys_String2Float64_def SortedKeys_String2Bool_def SortedKeys_String2String_def
      SortedKeys_Int2Int_def SortedKeysByVal_String2Float64_Ascending_def
      SortedKeysByVal_String2Float64_AbsAscending_def
      SortedKeysByVal_String2Float64_Descending_def
      SortedKeysByVal_String2Float64_AbsDescending_def
    by (intro conjI by_key by_val)
qed

text \<open>Instances of C4, with insertion sort; one of the maps holds a NaN.\<close>

theorem C4_keys_permutation_witness:
  "keeps_elements (insertionSort ((<) :: string \<Rightarrow> string \<Rightarrow> bool)) \<and>
   keeps_elements (insertionSort ((<) :: int \<Rightarrow> int \<Rightarrow> bool)) \<and>
   sort_permutes (insertionSort ::
      (myelemFloat64 \<Rightarrow> myelemFloat64 \<Rightarrow> bool) \<Rightarrow> myelemFloat64 list \<Rightarrow> myelemFloat64 list) \<and>
   permutation_of_keys m_bac (SortedKeys_String2Int (insertionSort (<)) (Some m_bac)) \<and>
   permutation_of_keys m_ints (SortedKeys_Int2Int (insertionSort (<)) (Some m_ints)) \<and>
   permutation_of_keys m_nan
     (SortedKeysByVal_String2Float64_Ascending insertionSort (Some m_nan)) \<and>
   permutation_of_keys m_pqr
     (SortedKeysByVal_String2Float64_AbsDescending insertionSort (Some m_pqr))"
proof -
  have s: "keeps_elements (insertionSort ((<) :: string \<Rightarrow> string \<Rightarrow> bool))"
    and i: "keeps_elements (insertionSort ((<) :: int \<Rightarrow> int \<Rightarrow> bool))"
    by (simp_all add: keeps_elements_def mset_insertionSort)
  note c4 = C4_keys_permutation [OF s i insertionSort_permutes]
  from c4 [where ?m1.0 = m_bac and m = m_nan and ?m2.0 = "[]" and ?m3.0 = "[]"
      and ?m4.0 = "[]" and ?m5.0 = "[]" and ?m6.0 = m_ints]
  have a: "permutation_of_keys m_bac (SortedKeys_String2Int (insertionSort (<)) (Some m_bac))"
    "permutation_of_keys m_ints (SortedKeys_Int2Int (insertionSort (<)) (Some m_ints))"
    "permutation_of_keys m_nan
      (SortedKeysByVal_String2Float64_Ascending insertionSort (Some m_nan))"
    by simp_all
  from c4 [where ?m1.0 = "[]" and m = m_pqr and ?m2.0 = "[]" and ?m3.0 = "[]"
      and ?m4.0 = "[]" and ?m5.0 = "[]" and ?m6.0 = "[]"]
  have b: "permutation_of_keys m_pqr
      (SortedKeysByVal_String2Float64_AbsDescending insertionSort (Some m_pqr))"
    by simp
  from a b s i show ?thesis
    by (simp add: insertionSort_permutes)
qed

section \<open>Keys sorted by key\<close>

lemma sorted_permutation_unique:
  assumes "sorted_permutation keys ks" and "sorted_permutation keys ks'"
  shows "ks' = ks"
proof -
  from assms(1) have "mset ks = mset keys" and "sorted ks"
    unfolding sorted_permutation_def by blast+
  then have a: "sort keys = ks"
    by (rule properties_for_sort)
  from assms(2) have "mset ks' = mset keys" and "sorted ks'"
    unfolding sorted_permutation_def by blast+
  then have "sort keys = ks'"
    by (rule properties_for_sort)
  with a show ?thesis
    by (simp only:)
qed

lemma SortedKeys_generic_sorted:
  assumes "sorts_increasing f"
  shows "unique_sorted_permutation (map fst m) (SortedKeys_generic f z (Some m))"
proof -
  from assms have "mset (f (map fst m)) = mset (map fst m)" and "sorted (f (map fst m))"
    unfolding sorts_increasing_def keeps_elements_def by blast+
  then have sp: "sorted_permutation (map fst m) (f (map fst m))"
    unfolding sorted_permutation_def by blast
  have "unique_sorted_permutation (map fst m) (Inr (f (map fst m)))"
    unfolding unique_sorted_permutation_def sum.case
    using sp sorted_permutation_unique [OF sp] by blast
  then show ?thesis
    by (simp only: SortedKeys_generic_eq)
qed

lemma SortedKeys_generic_empty:
  assumes "keeps_elements f"
  shows "SortedKeys_generic f z (Some []) = Inr []"
proof -
  from assms have "mset (f []) = mset []"
    unfolding keeps_elements_def by blast
  then have "f [] = []"
    by simp
  then show ?thesis
    by (simp add: SortedKeys_generic_eq)
qed

text \<open>
  Claim C6. For every map, the output of each \<open>SortedKeys_*\<close> function is the unique
  sorted permutation of the keys of the map, in the lexicographic order of strings for
  text keys and in the numeric order for integer keys. An empty map gives an empty
  sequence.
\<close>

theorem C6_sorted_by_key:
  assumes "sorts_increasing sort_Strings" and "sorts_increasing sort_Ints"
  shows "unique_sorted_permutation (map fst m1) (SortedKeys_String2Int sort_Strings (Some m1)) \<and>
    unique_sorted_permutation (map fst m2) (SortedKeys_String2Int64 sort_Strings (Some m2)) \<and>
    unique_sorted_permutation (map fst m3) (SortedKeys_String2Float64 sort_Strings (Some m3)) \<and>
    unique_sorted_permutation (map fst m4) (SortedKeys_String2Bool sort_Strings (Some m4)) \<and>
    unique_sorted_permutation (map fst m5) (SortedKeys_String2String sort_Strings (Some m5)) \<and>
    unique_sorted_permutation (map fst m6) (SortedKeys_Int2Int sort_Ints (Some m6)) \<and>
    SortedKeys_String2Int sort_Strings (Some []) = Inr [] \<and>
    SortedKeys_String2Int64 sort_Strings (Some []) = Inr [] \<and>
    SortedKeys_String2Float64 sort_Strings (Some []) = Inr [] \<and>
    SortedKeys_String2Bool sort_Strings (Some []) = Inr [] \<and>
    SortedKeys_String2String sort_Strings (Some []) = Inr [] \<and>
    SortedKeys_Int2Int sort_Ints (Some []) = Inr []"
proof -
  note sorted = SortedKeys_generic_sorted [OF assms(1)] SortedKeys_generic_sorted [OF assms(2)]
  from assms have "keeps_elements sort_Strings" and "keeps_elements sort_Ints"
    unfolding sorts_increasing_def by blast+
  note empty = this [THEN SortedKeys_generic_empty]
  show ?thesis
    unfolding SortedKeys_String2Int_def SortedKeys_String2Int64_def
      SortedKeys_String2Float64_def SortedKeys_String2Bool_def SortedKeys_String2String_def
      SortedKeys_Int2Int_def
    by (intro conjI sorted empty)
qed

lemma sorted_abc: "sorted [''a'', ''b'', ''c'']"
  by simp

lemma unique_sorted_permutationD:
  assumes "unique_sorted_permutation keys r" and "mset ks = mset keys" and "sorted ks"
  shows "r = Inr ks"
  using assms by (cases r) (auto simp: unique_sorted_permutation_def sorted_permutation_def)

text \<open>
  Instances of C6: the map \<^verbatim>\<open>{"b":1,"a":2,"c":3}\<close> gives \<^verbatim>\<open>["a","b","c"]\<close>, a map
  with integer keys gives them in numeric order, and the empty map gives nothing.
\<close>

theorem C6_sorted_by_key_witness:
  "sorts_increasing (insertionSort ((<) :: string \<Rightarrow> string \<Rightarrow> bool)) \<and>
   sorts_increasing (insertionSort ((<) :: int \<Rightarrow> int \<Rightarrow> bool)) \<and>
   SortedKeys_String2Int (insertionSort (<)) (Some m_bac) = Inr [''a'', ''b'', ''c''] \<and>
   SortedKeys_Int2Int (insertionSort (<)) (Some m_ints) = Inr [-1, 2, 3] \<and>
   SortedKeys_String2Int (insertionSort (<)) (Some []) = Inr []"
proof -
  note c6 = C6_sorted_by_key [OF insertionSort_increasing insertionSort_increasing,
      of m_bac "[]" "[]" "[]" "[]" m_ints]
  have "mset [''a'', ''b'', ''c''] = mset (map fst m_bac)"
    by (simp add: m_bac_def)
  with c6 have a: "SortedKeys_String2Int (insertionSort (<)) (Some m_bac) = Inr [''a'', ''b'', ''c'']"
    by (intro unique_sorted_permutationD [of "map fst m_bac"] sorted_abc) simp_all
  have "mset [-1, 2, 3] = mset (map fst m_ints)"
    by (simp add: m_ints_def)
  with c6 have b: "SortedKeys_Int2Int (insertionSort (<)) (Some m_ints) = Inr [-1, 2, 3]"
    by (intro unique_sorted_permutationD [of "map fst m_ints"]) simp_all
  from c6 have c: "SortedKeys_String2Int (insertionSort (<)) (Some []) = Inr []"
    by simp
  from a b c show ?thesis
    by (simp add: insertionSort_increasing)
qed

section \<open>Keys sorted by value\<close>

lemma value_of_key:
  assumes "distinct (map fst m)" and "p \<in> set m"
  shows "value_of m (fst p) = snd p"
proof -
  from assms have "map_of m (fst p) = Some (snd p)"
    by (cases p) simp
  then show ?thesis
    by (simp add: value_of_def)
qed

lemma no_NaN_value:
  assumes "NaN \<notin> snd ` set m" and "p \<in> set m"
  shows "snd p \<noteq> NaN"
proof
  assume "snd p = NaN"
  with assms(2) have "NaN \<in> snd ` set m"
    by (metis imageI)
  with assms(1) show False
    by contradiction
qed

lemma sorted_elems:
  assumes "sort_Sort_contract srt" and "NaN \<notin> snd ` set m"
    and "\<forall>v. v \<noteq> NaN \<longrightarrow> g v \<noteq> NaN"
  shows "sorted_wrt (\<lambda>a b. \<not> f64_less (g (elem_val b)) (g (elem_val a)))
      (srt (\<lambda>a b. f64_less (g (elem_val a)) (g (elem_val b))) (map mk_elem m))"
    and "sorted_wrt (\<lambda>a b. \<not> f64_less (g (elem_val a)) (g (elem_val b)))
      (srt (\<lambda>a b. f64_less (g (elem_val b)) (g (elem_val a))) (map mk_elem m))"
proof -
  have "\<forall>e\<in>set (map mk_elem m). g (elem_val e) \<noteq> NaN"
  proof
    fix e assume "e \<in> set (map mk_elem m)"
    then obtain p where "p \<in> set m" and "e = mk_elem p"
      by auto
    with no_NaN_value [OF assms(2)] have "elem_val e \<noteq> NaN"
      by (simp add: mk_elem_def)
    with assms(3) show "g (elem_val e) \<noteq> NaN"
      by blast
  qed
  note ord = f64_ordering [OF this]
  from assms(1) have sorts: "transitive_ordering_on (set xs) lt \<Longrightarrow>
      sorted_wrt (\<lambda>a b. \<not> lt b a) (srt lt xs)" for lt xs
    unfolding sort_Sort_contract_def by blast
  show "sorted_wrt (\<lambda>a b. \<not> f64_less (g (elem_val b)) (g (elem_val a)))
      (srt (\<lambda>a b. f64_less (g (elem_val a)) (g (elem_val b))) (map mk_elem m))"
    using sorts [OF ord(1)] .
  show "sorted_wrt (\<lambda>a b. \<not> f64_less (g (elem_val a)) (g (elem_val b)))
      (srt (\<lambda>a b. f64_less (g (elem_val b)) (g (elem_val a))) (map mk_elem m))"
    using sorts [OF ord(2)] .
qed

lemma adjacent_values_sorted:
  assumes "distinct (map fst m)" and "NaN \<notin> snd ` set m"
    and "\<forall>v. v \<noteq> NaN \<longrightarrow> g v \<noteq> NaN"
    and "mset es = mset (map mk_elem m)"
  shows "sorted_wrt (\<lambda>a b. \<not> f64_less (g (elem_val b)) (g (elem_val a))) es \<Longrightarrow>
      adjacent_values (\<lambda>a b. f64_le (g a) (g b)) m (map elem_kk es)"
    and "sorted_wrt (\<lambda>a b. \<not> f64_less (g (elem_val a)) (g (elem_val b))) es \<Longrightarrow>
      adjacent_values (\<lambda>a b. f64_le (g b) (g a)) m (map elem_kk es)"
proof -
  from assms(4) have set_es: "set es = set (map mk_elem m)"
    by (rule mset_eq_setD)
  have elem: "value_of m (elem_kk e) = elem_val e \<and> g (elem_val e) \<noteq> NaN"
    if "e \<in> set es" for e
  proof -
    from that set_es obtain p where p: "p \<in> set m" and e: "e = mk_elem p"
      by auto
    from no_NaN_value [OF assms(2) p] have "snd p \<noteq> NaN" .
    with assms(3) have "g (snd p) \<noteq> NaN"
      by blast
    with value_of_key [OF assms(1) p] e show ?thesis
      by (simp add: mk_elem_def)
  qed
  {
    assume sorted: "sorted_wrt (\<lambda>a b. \<not> f64_less (g (elem_val b)) (g (elem_val a))) es"
    show "adjacent_values (\<lambda>a b. f64_le (g a) (g b)) m (map elem_kk es)"
      unfolding adjacent_values_def
    proof (intro allI impI)
      fix i assume "Suc i < length (map elem_kk es)"
      then have i: "Suc i < length es" and i': "i < length es"
        by simp_all
      from sorted_wrt_nth_less [OF sorted _ i, of i]
      have "\<not> f64_less (g (elem_val (es ! Suc i))) (g (elem_val (es ! i)))"
        by simp
      moreover from i i' have "es ! i \<in> set es" and "es ! Suc i \<in> set es"
        by simp_all
      ultimately show "f64_le (g (value_of m (map elem_kk es ! i)))
          (g (value_of m (map elem_kk es ! Suc i)))"
        using i i' elem by (simp add: f64_not_less_le)
    qed
  }
  {
    assume sorted: "sorted_wrt (\<lambda>a b. \<not> f64_less (g (elem_val a)) (g (elem_val b))) es"
    show "adjacent_values (\<lambda>a b. f64_le (g b) (g a)) m (map elem_kk es)"
      unfolding adjacent_values_def
    proof (intro allI impI)
      fix i assume "Suc i < length (map elem_kk es)"
      then have i: "Suc i < length es" and i': "i < length es"
        by simp_all
      from sorted_wrt_nth_less [OF sorted _ i, of i]
      have "\<not> f64_less (g (elem_val (es ! i))) (g (elem_val (es ! Suc i)))"
        by simp
      moreover from i i' have "es ! i \<in> set es" and "es ! Suc i \<in> set es"
        by simp_all
      ultimately show "f64_le (g (value_of m (map elem_kk es ! Suc i)))
          (g (value_of m (map elem_kk es ! i)))"
        using i i' elem by (simp add: f64_not_less_le)
    qed
  }
qed

text \<open>
  Claim C3, as amended. For every map none of whose values is NaN, the values of adjacent
  output keys are in the order of the rule: under \<open>Ascending\<close> each value is at most the
  next one, under \<open>Descending\<close> at least the next one, and under \<open>AbsAscending\<close> and
  \<open>AbsDescending\<close> the same holds of the absolute values.
\<close>

theorem C3_adjacent_values_ordered:
  assumes "sort_Sort_contract sort_Sort" and "distinct (map fst m)" and "NaN \<notin> snd ` set m"
  shows "(\<exists>ks. SortedKeysByVal_String2Float64_Ascending sort_Sort (Some m) = Inr ks \<and>
        adjacent_values f64_le m ks) \<and>
    (\<exists>ks. SortedKeysByVal_String2Float64_AbsAscending sort_Sort (Some m) = Inr ks \<and>
        adjacent_values (\<lambda>a b. f64_le (math_Abs a) (math_Abs b)) m ks) \<and>
    (\<exists>ks. SortedKeysByVal_String2Float64_Descending sort_Sort (Some m) = Inr ks \<and>
        adjacent_values (\<lambda>a b. f64_le b a) m ks) \<and>
    (\<exists>ks. SortedKeysByVal_String2Float64_AbsDescending sort_Sort (Some m) = Inr ks \<and>
        adjacent_values (\<lambda>a b. f64_le (math_Abs b) (math_Abs a)) m ks)"
proof -
  from assms(1) have perm: "sort_permutes sort_Sort"
    unfolding sort_Sort_contract_def by blast
  then have mset: "mset (sort_Sort lt (map mk_elem m)) = mset (map mk_elem m)" for lt
    unfolding sort_permutes_def keeps_elements_def by blast
  have abs: "\<forall>v. v \<noteq> NaN \<longrightarrow> math_Abs v \<noteq> NaN"
    by (simp add: math_Abs_NaN)
  have same: "\<forall>v::float64. v \<noteq> NaN \<longrightarrow> v \<noteq> NaN"
    by simp
  note raw = sorted_elems [where g = "\<lambda>v. v", OF assms(1,3) same]
    and absolute = sorted_elems [where g = math_Abs, OF assms(1,3) abs]
  note adj_raw = adjacent_values_sorted [where g = "\<lambda>v. v", OF assms(2,3) same mset]
    and adj_abs = adjacent_values_sorted [where g = math_Abs, OF assms(2,3) abs mset]
  have "adjacent_values f64_le m (map elem_kk (sort_Sort Less_Ascending (map mk_elem m)))"
    unfolding Less_Ascending_def using adj_raw(1) [OF raw(1)] .
  moreover have "adjacent_values (\<lambda>a b. f64_le (math_Abs a) (math_Abs b)) m
      (map elem_kk (sort_Sort Less_AbsAscending (map mk_elem m)))"
    unfolding Less_AbsAscending_def using adj_abs(1) [OF absolute(1)] .
  moreover have "adjacent_values (\<lambda>a b. f64_le b a) m
      (map elem_kk (sort_Sort Less_Descending (map mk_elem m)))"
    unfolding Less_Descending_def using adj_raw(2) [OF raw(2)] .
  moreover have "adjacent_values (\<lambda>a b. f64_le (math_Abs b) (math_Abs a)) m
      (map elem_kk (sort_Sort Less_AbsDescending (map mk_elem m)))"
    unfolding Less_AbsDescending_def using adj_abs(2) [OF absolute(2)] .
  ultimately show ?thesis
    unfolding SortedKeysByVal_String2Float64_Ascending_def
      SortedKeysByVal_String2Float64_AbsAscending_def
      SortedKeysByVal_String2Float64_Descending_def
      SortedKeysByVal_String2Float64_AbsDescending_def
      SortedKeysByVal_generic_eq [OF perm]
    by blast
qed

lemma by_val_examples:
  "SortedKeysByVal_String2Float64_Ascending insertionSort (Some m_xyz) = Inr [''y'', ''z'', ''x'']"
  "SortedKeysByVal_String2Float64_AbsDescending insertionSort (Some m_pqr) = Inr [''p'', ''r'', ''q'']"
  "SortedKeysByVal_String2Float64_Ascending insertionSort (Some m_nan) = Inr [''a'', ''b'']"
  "SortedKeysByVal_String2Float64_Ascending insertionSort (Some (rev m_nan)) = Inr [''b'', ''a'']"
  by (simp_all add: SortedKeysByVal_String2Float64_Ascending_def
      SortedKeysByVal_String2Float64_AbsDescending_def
      SortedKeysByVal_generic_eq [OF insertionSort_permutes] insertionSort_def mk_elem_def
      Less_Ascending_def Less_AbsDescending_def m_xyz_def m_pqr_def m_nan_def)

text \<open>
  Instances of C3: \<^verbatim>\<open>{"x":3.0,"y":1.0,"z":2.0}\<close> ascending gives \<^verbatim>\<open>["y","z","x"]\<close>, and
  \<^verbatim>\<open>{"p":-5.0,"q":3.0,"r":-4.0}\<close> by descending absolute value gives \<^verbatim>\<open>["p","r","q"]\<close>.
\<close>

theorem C3_adjacent_values_ordered_witness:
  "sort_Sort_contract (insertionSort ::
      (myelemFloat64 \<Rightarrow> myelemFloat64 \<Rightarrow> bool) \<Rightarrow> myelemFloat64 list \<Rightarrow> myelemFloat64 list) \<and>
   distinct (map fst m_xyz) \<and> NaN \<notin> snd ` set m_xyz \<and>
   SortedKeysByVal_String2Float64_Ascending insertionSort (Some m_xyz) =
     Inr [''y'', ''z'', ''x''] \<and>
   adjacent_values f64_le m_xyz [''y'', ''z'', ''x''] \<and>
   distinct (map fst m_pqr) \<and> NaN \<notin> snd ` set m_pqr \<and>
   SortedKeysByVal_String2Float64_AbsDescending insertionSort (Some m_pqr) =
     Inr [''p'', ''r'', ''q''] \<and>
   adjacent_values (\<lambda>a b. f64_le (math_Abs b) (math_Abs a)) m_pqr [''p'', ''r'', ''q'']"
proof -
  have a: "distinct (map fst m_xyz)" "NaN \<notin> snd ` set m_xyz"
    "distinct (map fst m_pqr)" "NaN \<notin> snd ` set m_pqr"
    by (simp_all add: m_xyz_def m_pqr_def)
  from C3_adjacent_values_ordered [OF insertionSort_contract a(1,2)]
  have b: "adjacent_values f64_le m_xyz [''y'', ''z'', ''x'']"
    by (simp add: by_val_examples)
  from C3_adjacent_values_ordered [OF insertionSort_contract a(3,4)]
  have c: "adjacent_values (\<lambda>a b. f64_le (math_Abs b) (math_Abs a)) m_pqr [''p'', ''r'', ''q'']"
    by (simp add: by_val_examples)
  from a b c show ?thesis
    by (simp add: insertionSort_contract by_val_examples)
qed

lemma not_adjacent_NaN:
  "\<not> adjacent_values f64_le m_nan [''a'', ''b'']"
  "\<not> adjacent_values f64_le (rev m_nan) [''b'', ''a'']"
proof -
  show "\<not> adjacent_values f64_le m_nan [''a'', ''b'']"
  proof
    assume "adjacent_values f64_le m_nan [''a'', ''b'']"
    then have "f64_le (value_of m_nan ([''a'', ''b''] ! 0)) (value_of m_nan ([''a'', ''b''] ! Suc 0))"
      unfolding adjacent_values_def by (elim allE [of _ 0]) simp
    then show False
      by (simp add: value_of_def m_nan_def)
  qed
  show "\<not> adjacent_values f64_le (rev m_nan) [''b'', ''a'']"
  proof
    assume "adjacent_values f64_le (rev m_nan) [''b'', ''a'']"
    then have "f64_le (value_of (rev m_nan) ([''b'', ''a''] ! 0))
        (value_of (rev m_nan) ([''b'', ''a''] ! Suc 0))"
      unfolding adjacent_values_def by (elim allE [of _ 0]) simp
    then show False
      by (simp add: value_of_def m_nan_def)
  qed
qed

text \<open>
  Claim C3 as stated fails: in the map \<^verbatim>\<open>{"a": NaN, "b": 1.0}\<close> the two keys come out
  adjacent, in either order of the iteration, and \<^verbatim>\<open><=\<close> is false between NaN and any
  value.
\<close>

theorem C3_adjacent_values_counterexample:
  "sort_Sort_contract (insertionSort ::
      (myelemFloat64 \<Rightarrow> myelemFloat64 \<Rightarrow> bool) \<Rightarrow> myelemFloat64 list \<Rightarrow> myelemFloat64 list) \<and>
   distinct (map fst m_nan) \<and>
   SortedKeysByVal_String2Float64_Ascending insertionSort (Some m_nan) = Inr [''a'', ''b''] \<and>
   \<not> adjacent_values f64_le m_nan [''a'', ''b''] \<and>
   SortedKeysByVal_String2Float64_Ascending insertionSort (Some (rev m_nan)) =
     Inr [''b'', ''a''] \<and>
   \<not> adjacent_values f64_le (rev m_nan) [''b'', ''a'']"
proof -
  have "distinct (map fst m_nan)"
    by (simp add: m_nan_def)
  then show ?thesis
    by (simp add: insertionSort_contract by_val_examples not_adjacent_NaN)
qed

end
